theory Spec2Isabelle
  imports Complex_Main "HOL-Library.Word" "HOL-Library.Multiset"
begin

section \<open>JavaScript strings\<close>

text \<open>
  A JavaScript string is a sequence of UTF-16 code units. \<open>length\<close> and \<open>slice\<close> count
  code units; the string iterator (\<open>for (const char of text)\<close>) yields code points, a
  well-formed surrogate pair as one two-unit string and every other unit alone.
\<close>

type_synonym jsstring = "16 word list"

definition lit :: "string \<Rightarrow> jsstring" where
  "lit s = map (\<lambda>c. of_char c) s"

definition isHighSurrogate :: "16 word \<Rightarrow> bool" where
  "isHighSurrogate u \<longleftrightarrow> 0xD800 \<le> u \<and> u \<le> 0xDBFF"

definition isLowSurrogate :: "16 word \<Rightarrow> bool" where
  "isLowSurrogate u \<longleftrightarrow> 0xDC00 \<le> u \<and> u \<le> 0xDFFF"

text \<open>The string iterator: the list of the one-code-point strings of a string.\<close>

fun chars_of :: "jsstring \<Rightarrow> jsstring list" where
  "chars_of [] = []"
| "chars_of [u] = [[u]]"
| "chars_of (u # v # r) =
     (if isHighSurrogate u \<and> isLowSurrogate v then [u, v] # chars_of r
      else [u] # chars_of (v # r))"

text \<open>\<open>s.codePointAt(0)\<close>; \<open>None\<close> is \<open>undefined\<close> (the empty string).\<close>

fun codePointAt0 :: "jsstring \<Rightarrow> nat option" where
  "codePointAt0 [] = None"
| "codePointAt0 [u] = Some (unat u)"
| "codePointAt0 (u # v # r) =
     (if isHighSurrogate u \<and> isLowSurrogate v
      then Some (0x10000 + (unat u - 0xD800) * 0x400 + (unat v - 0xDC00))
      else Some (unat u))"

text \<open>
  \<open>s.slice(0, e)\<close> for an integer \<open>e\<close>: a negative end counts from the end of the
  string, and both bounds are clamped to the string.
\<close>

definition slice0 :: "jsstring \<Rightarrow> int \<Rightarrow> jsstring" where
  "slice0 s e =
     (if e < 0 then take (nat (max (int (length s) + e) 0)) s
      else take (nat (min e (int (length s)))) s)"

definition CR :: jsstring where "CR = [0x0D]"
definition TAB :: jsstring where "TAB = [0x09]"

section \<open>Width and wrap primitives\<close>

definition truncateLabel :: "jsstring \<Rightarrow> int \<Rightarrow> jsstring" where
  "truncateLabel label maxWidth =
     (if label = [] then []
      else if int (length label) \<le> maxWidth then label
      else if maxWidth \<le> 3 then slice0 label maxWidth
      else slice0 label (maxWidth - 3) @ lit ''...'')"

definition charWidth :: "jsstring \<Rightarrow> int" where
  "charWidth char =
     (let code = (case codePointAt0 char of None \<Rightarrow> 0 | Some c \<Rightarrow> c)
      in if code \<le> 0x1f then 0 else if code \<le> 0x7f then 1 else 2)"

definition stringWidth :: "jsstring \<Rightarrow> int" where
  "stringWidth text = foldl (\<lambda>width char. width + charWidth char) 0 (chars_of text)"

text \<open>
  The state of the loop of \<open>wrapText\<close>: the lines pushed so far, the current line and
  its width. \<open>wrapPut\<close> is the block that places one character; the source has it twice,
  once for each character of an expanded tab and once for every other character.
\<close>

type_synonym wrapState = "jsstring list \<times> jsstring \<times> int"

definition wrapPut :: "int \<Rightarrow> wrapState \<Rightarrow> jsstring \<Rightarrow> wrapState" where
  "wrapPut maxWidth st char =
     (case st of (lines, line, lineWidth) \<Rightarrow>
        let width = charWidth char;
            (lines1, line1, lineWidth1) =
              (if lineWidth + width > maxWidth \<and> line \<noteq> []
               then (lines @ [line], [], 0) else (lines, line, lineWidth));
            line2 = line1 @ char;
            lineWidth2 = lineWidth1 + width
        in if lineWidth2 \<ge> maxWidth then (lines1 @ [line2], [], 0)
           else (lines1, line2, lineWidth2))"

definition wrapStep :: "int \<Rightarrow> wrapState \<Rightarrow> jsstring \<Rightarrow> wrapState" where
  "wrapStep maxWidth st char =
     (if char = CR then st
      else if char = TAB then foldl (wrapPut maxWidth) st (chars_of (lit ''  ''))
      else wrapPut maxWidth st char)"

definition wrapText :: "jsstring \<Rightarrow> int \<Rightarrow> jsstring list" where
  "wrapText text maxWidth =
     (if maxWidth \<le> 0 then [text]
      else if text = [] then [lit '' '']
      else (case foldl (wrapStep maxWidth) ([], [], 0) (chars_of text) of
              (lines, line, lineWidth) \<Rightarrow>
                if line \<noteq> [] \<or> length lines = 0 then lines @ [line] else lines))"


text \<open>
  A display row. The source's rows are objects \<open>{ type, role, text }\<close>; \<open>role\<close> is
  absent on spacer and Markdown rows.
\<close>

datatype role = User | Assistant

datatype rowType = TextRow | BoxBorder | BoxText | Label | Spacer

record row =
  rtype :: rowType
  rrole :: "role option"
  rtext :: jsstring

text \<open>
  \<open>lines.forEach((line, index) => ...)\<close> of \<open>wrapRows\<close>: the first line keeps the
  type of the row, a continuation of a label row becomes a text row.
\<close>

fun wrapRowLines :: "row \<Rightarrow> nat \<Rightarrow> jsstring list \<Rightarrow> row list" where
  "wrapRowLines r index [] = []"
| "wrapRowLines r index (line # rest) =
     (let nextType = (if index = 0 then rtype r
                      else if rtype r = Label then TextRow else rtype r)
      in r\<lparr>rtype := nextType, rtext := line\<rparr> # wrapRowLines r (index + 1) rest)"

fun wrapRows :: "row list \<Rightarrow> int \<Rightarrow> row list" where
  "wrapRows [] maxWidth = []"
| "wrapRows (r # rows) maxWidth =
     (let lines = wrapText (rtext r) maxWidth
      in (if length lines = 0 then [r] else wrapRowLines r 0 lines) @ wrapRows rows maxWidth)"

section \<open>Parsed records\<close>

text \<open>
  The values \<open>JSON.parse\<close> returns. A number is kept as its rendering by \<open>String(n)\<close>,
  which is all the extraction observes of it (a number is falsy exactly when it renders
  as \<open>0\<close>; \<open>JSON.parse\<close> yields no \<open>NaN\<close>). An object is its member list in source
  order; a later member overrides an earlier one of the same name. \<open>undefined\<close> is
  \<open>None\<close> of \<open>json option\<close>.
\<close>

datatype json =
    JNull
  | JBool bool
  | JNum jsstring
  | JStr jsstring
  | JArr "json list"
  | JObj "(jsstring \<times> json) list"

datatype error = TypeError

text \<open>
  Property access \<open>v.k\<close> and \<open>v?.k\<close> for the property names the program reads
  (\<open>type\<close>, \<open>payload\<close>, \<open>message\<close>, \<open>images\<close>, \<open>local_images\<close>, \<open>role\<close>,
  \<open>content\<close>, \<open>text\<close>): none of them is a property of a string, number, boolean or
  array, so only objects answer. The program reads a property of \<open>null\<close> only through
  \<open>?.\<close>, which gives \<open>undefined\<close>.
\<close>

fun getProp :: "json \<Rightarrow> jsstring \<Rightarrow> json option" where
  "getProp (JObj members) k = map_of (rev members) k"
| "getProp _ k = None"

fun truthy :: "json option \<Rightarrow> bool" where
  "truthy None = False"
| "truthy (Some JNull) = False"
| "truthy (Some (JBool b)) = b"
| "truthy (Some (JNum n)) = (n \<noteq> lit ''0'')"
| "truthy (Some (JStr s)) = (s \<noteq> [])"
| "truthy (Some (JArr xs)) = True"
| "truthy (Some (JObj members)) = True"

text \<open>\<open>v || d\<close> for a default \<open>d\<close> that is a value.\<close>

definition orElse :: "json option \<Rightarrow> json \<Rightarrow> json" where
  "orElse v d = (case v of Some x \<Rightarrow> (if truthy v then x else d) | None \<Rightarrow> d)"

fun joinStr :: "jsstring \<Rightarrow> jsstring list \<Rightarrow> jsstring" where
  "joinStr sep [] = []"
| "joinStr sep [x] = x"
| "joinStr sep (x # y # r) = x @ sep @ joinStr sep (y # r)"

fun sequence :: "(error + 'a) list \<Rightarrow> error + 'a list" where
  "sequence [] = Inr []"
| "sequence (x # xs) =
     (case x of Inl e \<Rightarrow> Inl e
      | Inr v \<Rightarrow> (case sequence xs of Inl e \<Rightarrow> Inl e | Inr vs \<Rightarrow> Inr (v # vs)))"

text \<open>
  \<open>String(v)\<close>, as a template literal and \<open>Array.prototype.join\<close> apply it. An array
  joins its elements with a comma, \<open>null\<close> elements as the empty string. A parsed object
  renders as \<open>[object Object]\<close> unless it has a member named \<open>toString\<close>: that member
  is not callable, \<open>valueOf\<close> does not give a primitive either, and the conversion
  throws a TypeError.
\<close>

fun toStr :: "json \<Rightarrow> error + jsstring" where
  "toStr JNull = Inr (lit ''null'')"
| "toStr (JBool b) = Inr (if b then lit ''true'' else lit ''false'')"
| "toStr (JNum n) = Inr n"
| "toStr (JStr s) = Inr s"
| "toStr (JArr xs) =
     (case sequence (map (\<lambda>x. if x = JNull then Inr [] else toStr x) xs) of
        Inl e \<Rightarrow> Inl e
      | Inr parts \<Rightarrow> Inr (joinStr (lit '','') parts))"
| "toStr (JObj members) =
     (if map_of (rev members) (lit ''toString'') = None then Inr (lit ''[object Object]'')
      else Inl TypeError)"

text \<open>The decimal rendering of a natural number, \<open>String(n)\<close>.\<close>

fun showNat :: "nat \<Rightarrow> jsstring" where
  "showNat n =
     (if n < 10 then [of_nat (48 + n)]
      else showNat (n div 10) @ [of_nat (48 + n mod 10)])"

text \<open>White space and line terminators, the code units \<open>trim\<close> and \<open>trimStart\<close> strip.\<close>

definition isWhiteSpace :: "16 word \<Rightarrow> bool" where
  "isWhiteSpace u \<longleftrightarrow>
     u \<in> {0x09, 0x0A, 0x0B, 0x0C, 0x0D, 0x20, 0xA0, 0x1680, 0x2028, 0x2029, 0x202F,
          0x205F, 0x3000, 0xFEFF} \<or> (0x2000 \<le> u \<and> u \<le> 0x200A)"

definition trimStart :: "jsstring \<Rightarrow> jsstring" where
  "trimStart s = dropWhile isWhiteSpace s"

definition trim :: "jsstring \<Rightarrow> jsstring" where
  "trim s = rev (dropWhile isWhiteSpace (rev (dropWhile isWhiteSpace s)))"

definition startsWith :: "jsstring \<Rightarrow> jsstring \<Rightarrow> bool" where
  "startsWith s p \<longleftrightarrow> take (length p) s = p"

definition endsWith :: "jsstring \<Rightarrow> jsstring \<Rightarrow> bool" where
  "endsWith s p \<longleftrightarrow> length p \<le> length s \<and> drop (length s - length p) s = p"

section \<open>Conversation extractor\<close>

definition EXCLUDE_PREFIXES :: "jsstring list" where
  "EXCLUDE_PREFIXES =
     [lit ''# AGENTS.md'', lit ''<environment_context>'',
      lit ''<permissions instructions>'', lit ''<INSTRUCTIONS>'']"

text \<open>
  \<open>shouldExcludeText\<close> receives whatever the record holds. A truthy value that is not a
  string has no \<open>trimStart\<close> method, and the call throws a TypeError.
\<close>

definition shouldExcludeText :: "json \<Rightarrow> error + bool" where
  "shouldExcludeText text =
     (if \<not> truthy (Some text) then Inr True
      else (case text of
              JStr s \<Rightarrow> Inr (list_ex (\<lambda>prefix. startsWith (trimStart s) prefix) EXCLUDE_PREFIXES)
            | _ \<Rightarrow> Inl TypeError))"

definition arrayItems :: "json option \<Rightarrow> json list" where
  "arrayItems v = (case v of Some (JArr xs) \<Rightarrow> xs | _ \<Rightarrow> [])"

definition imagePlaceholders :: "json \<Rightarrow> jsstring list" where
  "imagePlaceholders payload =
     (let images = arrayItems (getProp payload (lit ''images''))
                   @ arrayItems (getProp payload (lit ''local_images''))
      in if length images = 0 then []
         else map (\<lambda>index. lit ''[image '' @ showNat (index + 1) @ lit '']'')
                [0 ..< length images])"

definition appendImages :: "json \<Rightarrow> json \<Rightarrow> error + json" where
  "appendImages text payload =
     (let placeholders = imagePlaceholders payload
      in if length placeholders = 0 then Inr text
         else let suffix = joinStr [0x0A] placeholders
              in if \<not> truthy (Some text) then Inr (JStr suffix)
                 else (case toStr text of
                         Inl e \<Rightarrow> Inl e
                       | Inr s \<Rightarrow> Inr (JStr (s @ [0x0A, 0x0A] @ suffix))))"

definition buildTextFromContent :: "json option \<Rightarrow> error + jsstring" where
  "buildTextFromContent content =
     (case content of
        Some (JArr items) \<Rightarrow>
          (let parts =
                 filter (\<lambda>t. truthy t)
                   (map (\<lambda>item. getProp item (lit ''text''))
                      (filter (\<lambda>item. getProp item (lit ''type'') = Some (JStr (lit ''input_text''))
                                     \<or> getProp item (lit ''type'') = Some (JStr (lit ''output_text'')))
                         items))
           in (case sequence (map (\<lambda>t. case t of Some v \<Rightarrow> toStr v | None \<Rightarrow> Inr []) parts) of
                 Inl e \<Rightarrow> Inl e
               | Inr strs \<Rightarrow> Inr (joinStr [0x0A] strs)))
      | _ \<Rightarrow> Inr [])"

text \<open>
  A conversation entry \<open>{ role, text }\<close>. The entry holds the value the record gave;
  only strings pass \<open>shouldExcludeText\<close>, so the text of a queued entry is a string.
\<close>

record entry =
  erole :: role
  etext :: json

text \<open>The \<open>event_msg\<close> block of the loop body, on the list of event messages.\<close>

definition eventMsgBlock :: "json \<Rightarrow> entry list \<Rightarrow> error + entry list" where
  "eventMsgBlock parsed eventMessages =
     (if getProp parsed (lit ''type'') = Some (JStr (lit ''event_msg'')) then
        let payload = orElse (getProp parsed (lit ''payload'')) (JObj []);
            msgType = getProp payload (lit ''type'')
        in (case (if msgType = Some (JStr (lit ''user_message'')) then
                    (case appendImages (orElse (getProp payload (lit ''message'')) (JStr [])) payload of
                       Inl e \<Rightarrow> Inl e
                     | Inr text \<Rightarrow>
                         (case shouldExcludeText text of
                            Inl e \<Rightarrow> Inl e
                          | Inr excluded \<Rightarrow>
                              Inr (if \<not> excluded
                                   then eventMessages @ [\<lparr>erole = User, etext = text\<rparr>]
                                   else eventMessages)))
                  else Inr eventMessages) of
              Inl e \<Rightarrow> Inl e
            | Inr eventMessages1 \<Rightarrow>
                (if msgType = Some (JStr (lit ''agent_message''))
                    \<or> msgType = Some (JStr (lit ''assistant_message'')) then
                   let text = orElse (getProp payload (lit ''message'')) (JStr [])
                   in (case shouldExcludeText text of
                         Inl e \<Rightarrow> Inl e
                       | Inr excluded \<Rightarrow>
                           Inr (if \<not> excluded
                                then eventMessages1 @ [\<lparr>erole = Assistant, etext = text\<rparr>]
                                else eventMessages1))
                 else Inr eventMessages1))
      else Inr eventMessages)"

text \<open>The \<open>response_item\<close> block of the loop body, on the list of fallback messages.\<close>

definition responseItemBlock :: "json \<Rightarrow> entry list \<Rightarrow> error + entry list" where
  "responseItemBlock parsed fallbackMessages =
     (if getProp parsed (lit ''type'') = Some (JStr (lit ''response_item'')) then
        let payload = orElse (getProp parsed (lit ''payload'')) (JObj [])
        in if getProp payload (lit ''type'') = Some (JStr (lit ''message'')) then
             let r = getProp payload (lit ''role'')
             in if r = Some (JStr (lit ''user'')) \<or> r = Some (JStr (lit ''assistant'')) then
                  (case buildTextFromContent (getProp payload (lit ''content'')) of
                     Inl e \<Rightarrow> Inl e
                   | Inr s \<Rightarrow>
                       (case shouldExcludeText (JStr s) of
                          Inl e \<Rightarrow> Inl e
                        | Inr excluded \<Rightarrow>
                            Inr (if \<not> excluded
                                 then fallbackMessages
                                      @ [\<lparr>erole = (if r = Some (JStr (lit ''user'')) then User else Assistant),
                                          etext = JStr s\<rparr>]
                                 else fallbackMessages)))
                else Inr fallbackMessages
           else Inr fallbackMessages
      else Inr fallbackMessages)"

text \<open>
  The loop over the lines of the file. \<open>parse\<close> is \<open>JSON.parse\<close>, \<open>None\<close> where it
  throws; the lines are those \<open>readline\<close> yields.
\<close>

fun extractLoop ::
  "(jsstring \<Rightarrow> json option) \<Rightarrow> jsstring list \<Rightarrow> entry list \<Rightarrow> entry list
     \<Rightarrow> error + (entry list \<times> entry list)" where
  "extractLoop parse [] eventMessages fallbackMessages = Inr (eventMessages, fallbackMessages)"
| "extractLoop parse (line # rest) eventMessages fallbackMessages =
     (if trim line = [] then extractLoop parse rest eventMessages fallbackMessages
      else (case parse line of
              None \<Rightarrow> extractLoop parse rest eventMessages fallbackMessages
            | Some parsed \<Rightarrow>
                (case eventMsgBlock parsed eventMessages of
                   Inl e \<Rightarrow> Inl e
                 | Inr eventMessages1 \<Rightarrow>
                     (case responseItemBlock parsed fallbackMessages of
                        Inl e \<Rightarrow> Inl e
                      | Inr fallbackMessages1 \<Rightarrow>
                          extractLoop parse rest eventMessages1 fallbackMessages1))))"

definition extractConversation ::
  "(jsstring \<Rightarrow> json option) \<Rightarrow> jsstring list \<Rightarrow> error + entry list" where
  "extractConversation parse lines =
     (case extractLoop parse lines [] [] of
        Inl e \<Rightarrow> Inl e
      | Inr (eventMessages, fallbackMessages) \<Rightarrow>
          Inr (if length eventMessages > 0 then eventMessages else fallbackMessages))"


section \<open>Session locator\<close>

text \<open>
  The directory tree under the scan root. \<open>readdir\<close> of a directory gives its entries or
  throws (\<open>None\<close>); an entry is a directory, a regular file or something else.
\<close>

datatype fsnode =
    RegularFile
  | OtherNode
  | Directory "(jsstring \<times> fsnode) list option"

text \<open>
  \<open>findJsonlFiles\<close>, with \<open>path.join\<close> as the parameter \<open>pathJoin\<close>. The \<open>catch\<close>
  around \<open>readdir\<close> returns the empty list for every directory that cannot be read,
  the root as well.
\<close>

fun findJsonlFiles :: "(jsstring \<Rightarrow> jsstring \<Rightarrow> jsstring) \<Rightarrow> jsstring \<Rightarrow> fsnode \<Rightarrow> jsstring list"
  and findInEntries ::
    "(jsstring \<Rightarrow> jsstring \<Rightarrow> jsstring) \<Rightarrow> jsstring \<Rightarrow> (jsstring \<times> fsnode) list \<Rightarrow> jsstring list"
where
  "findJsonlFiles pathJoin dir (Directory (Some entries)) = findInEntries pathJoin dir entries"
| "findJsonlFiles pathJoin dir (Directory None) = []"
| "findJsonlFiles pathJoin dir RegularFile = []"
| "findJsonlFiles pathJoin dir OtherNode = []"
| "findInEntries pathJoin dir [] = []"
| "findInEntries pathJoin dir ((name, node) # rest) =
     (let fullPath = pathJoin dir name
      in (case node of
            Directory d \<Rightarrow> findJsonlFiles pathJoin fullPath node
          | RegularFile \<Rightarrow> (if endsWith name (lit ''.jsonl'') then [fullPath] else [])
          | OtherNode \<Rightarrow> [])
         @ findInEntries pathJoin dir rest)"

text \<open>
  A session descriptor, as the scan builds it. The id is \<open>meta?.payload?.id || null\<close>:
  \<open>null\<close> (\<open>JNull\<close>) or whatever truthy value the metadata record holds.
\<close>

record session =
  sid :: json
  label :: jsstring
  path :: "jsstring option"
  sortKey :: real

text \<open>
  The outcome of \<open>fs.promises.stat\<close>: it throws, or gives an \<open>mtimeMs\<close> that is a finite
  number (\<open>Some\<close>) or not.
\<close>

datatype statResult = StatThrows | StatOk "real option"

text \<open>\<open>a || b\<close> on numbers that are not \<open>NaN\<close>: zero is falsy.\<close>

definition numOr :: "real \<Rightarrow> real \<Rightarrow> real" where
  "numOr a b = (if a \<noteq> 0 then a else b)"

text \<open>
  The sort key of one file, from the outcome of \<open>stat\<close>, from \<open>metaTs\<close> (the metadata
  timestamp parsed by \<open>Date.parse\<close>, \<open>None\<close> for \<open>NaN\<close>) and from the result of
  \<open>parseTimestampMsFromFilename\<close> (\<open>None\<close> for \<open>null\<close>).
\<close>

definition deriveSortKey :: "statResult \<Rightarrow> real option \<Rightarrow> real option \<Rightarrow> real" where
  "deriveSortKey st metaTs filenameTs =
     (let mtimeMs = (case st of StatOk (Some m) \<Rightarrow> m | _ \<Rightarrow> 0);
          filenameMs = (case filenameTs of Some f \<Rightarrow> numOr f 0 | None \<Rightarrow> 0);
          metaMs = (case metaTs of None \<Rightarrow> 0 | Some t \<Rightarrow> t)
      in numOr (numOr (numOr mtimeMs metaMs) filenameMs) 0)"

text \<open>
  The comparator of \<open>sessionsData.sort\<close>; \<open>localeCompare\<close> is a parameter. It is
  negative when \<open>a\<close> goes first.
\<close>

definition compareSessions :: "(jsstring \<Rightarrow> jsstring \<Rightarrow> int) \<Rightarrow> session \<Rightarrow> session \<Rightarrow> real" where
  "compareSessions localeCompare a b =
     (if sortKey a \<noteq> sortKey b then sortKey b - sortKey a
      else of_int (localeCompare (label a) (label b)))"

text \<open>
  \<open>Array.prototype.sort\<close> is a stable comparison sort; for a consistent comparator its
  result is the stable sorted arrangement, which insertion from the right computes.
\<close>

fun insertSorted :: "('a \<Rightarrow> 'a \<Rightarrow> real) \<Rightarrow> 'a \<Rightarrow> 'a list \<Rightarrow> 'a list" where
  "insertSorted cmp x [] = [x]"
| "insertSorted cmp x (y # ys) =
     (if cmp x y \<le> 0 then x # y # ys else y # insertSorted cmp x ys)"

definition arraySort :: "('a \<Rightarrow> 'a \<Rightarrow> real) \<Rightarrow> 'a list \<Rightarrow> 'a list" where
  "arraySort cmp xs = foldr (insertSorted cmp) xs []"

text \<open>
  The state the session scan publishes, and the scan effect of \<open>App\<close>. \<open>describe\<close>
  builds the descriptor of one file (metadata, label, sort key). Its reads are caught, but
  \<open>new Date(timestamp)\<close> in \<open>buildSessionLabel\<close> and \<open>Date.parse(tsRaw)\<close> convert the
  metadata timestamp outside any \<open>try\<close> and throw a TypeError on a value that has no
  string conversion, so \<open>describe\<close> gives an error or a session. \<open>Promise.all\<close> rejects
  when one of the descriptors does. The body of the \<open>try\<close> is a sum, and \<open>Inl\<close> is the
  \<open>catch\<close> that sets the error message, \<open>error?.message || String(error)\<close>.
\<close>

definition errorMessage :: "error \<Rightarrow> jsstring" where
  "errorMessage e = lit ''Cannot convert object to primitive value''"

record loadState =
  sessions :: "session list"
  loadingSessions :: bool
  sessionsError :: jsstring

definition scanBody ::
  "(jsstring \<Rightarrow> jsstring \<Rightarrow> jsstring) \<Rightarrow> (jsstring \<Rightarrow> jsstring \<Rightarrow> int)
     \<Rightarrow> (jsstring \<Rightarrow> error + session) \<Rightarrow> jsstring \<Rightarrow> fsnode \<Rightarrow> jsstring + session list" where
  "scanBody pathJoin localeCompare describe rootDir rootNode =
     (let files = findJsonlFiles pathJoin rootDir rootNode
      in (case sequence (map describe files) of
            Inl e \<Rightarrow> Inl (errorMessage e)
          | Inr sessionsData \<Rightarrow> Inr (arraySort (compareSessions localeCompare) sessionsData)))"

definition loadSessions ::
  "(jsstring \<Rightarrow> jsstring \<Rightarrow> jsstring) \<Rightarrow> (jsstring \<Rightarrow> jsstring \<Rightarrow> int)
     \<Rightarrow> (jsstring \<Rightarrow> error + session) \<Rightarrow> jsstring \<Rightarrow> fsnode \<Rightarrow> loadState" where
  "loadSessions pathJoin localeCompare describe rootDir rootNode =
     (let st0 = \<lparr>sessions = [], loadingSessions = True, sessionsError = []\<rparr>;
          st1 = (case scanBody pathJoin localeCompare describe rootDir rootNode of
                   Inr sessionsData \<Rightarrow> st0\<lparr>sessions := sessionsData\<rparr>
                 | Inl message \<Rightarrow> st0\<lparr>sessionsError := message\<rparr>)
      in st1\<lparr>loadingSessions := False\<rparr>)"

text \<open>What \<open>ListView\<close> renders: one of three notices, or the visible session lines.\<close>

datatype listViewOutput =
    Loading
  | LoadError jsstring
  | NoSessionsFound
  | SessionLines "jsstring list"

fun sessionLines :: "nat \<Rightarrow> nat \<Rightarrow> int \<Rightarrow> session list \<Rightarrow> jsstring list" where
  "sessionLines selectedIndex actualIndex maxLabelWidth [] = []"
| "sessionLines selectedIndex actualIndex maxLabelWidth (s # rest) =
     ((if actualIndex = selectedIndex then lit ''> '' else lit ''  '')
        @ truncateLabel (label s) maxLabelWidth)
     # sessionLines selectedIndex (actualIndex + 1) maxLabelWidth rest"

definition ListView :: "loadState \<Rightarrow> nat \<Rightarrow> nat \<Rightarrow> nat \<Rightarrow> int \<Rightarrow> listViewOutput" where
  "ListView st selectedIndex scrollOffset visibleCount maxLabelWidth =
     (if loadingSessions st then Loading
      else if sessionsError st \<noteq> [] then LoadError (sessionsError st)
      else if length (sessions st) = 0 then NoSessionsFound
      else SessionLines
             (sessionLines selectedIndex scrollOffset maxLabelWidth
                (take visibleCount (drop scrollOffset (sessions st)))))"

section \<open>Exporter\<close>

text \<open>
  \<open>defaultExportPath\<close>; the session is \<open>None\<close> for \<open>null\<close>. \<open>path.basename\<close>,
  \<open>path.join\<close> and the working directory are parameters. \<open>session?.id\<close> is
  \<open>undefined\<close> on \<open>null\<close>, and the plain \<open>session.path\<close> that follows throws. The
  template literal converts the base with \<open>String\<close>, which throws for an id that has no
  string conversion.
\<close>

text \<open>\<open>v || d\<close> for a string or \<open>null\<close> \<open>v\<close>: the empty string is falsy.\<close>

definition strOr :: "jsstring option \<Rightarrow> jsstring \<Rightarrow> jsstring" where
  "strOr v d = (case v of Some s \<Rightarrow> (if s \<noteq> [] then s else d) | None \<Rightarrow> d)"

definition defaultExportPath ::
  "(jsstring \<Rightarrow> jsstring \<Rightarrow> jsstring) \<Rightarrow> (jsstring \<Rightarrow> jsstring \<Rightarrow> jsstring) \<Rightarrow> jsstring
     \<Rightarrow> session option \<Rightarrow> error + jsstring" where
  "defaultExportPath pathJoin basename cwd sess =
     (case sess of
        None \<Rightarrow> Inl TypeError
      | Some s \<Rightarrow>
          (case (if truthy (Some (sid s)) then toStr (sid s)
                 else Inr (basename (strOr (path s) (lit ''session'')) (lit ''.jsonl''))) of
             Inl e \<Rightarrow> Inl e
           | Inr base \<Rightarrow> Inr (pathJoin cwd (base @ lit ''.md''))))"

section \<open>Conversation pane scrolling\<close>

datatype viewMode = Pretty | Markdown

text \<open>
  What a render of \<open>App\<close> reads besides the scroll offset: the terminal height
  (\<open>stdout?.rows\<close>), the selected session, the render mode, the content width of the
  right pane and the number of wrapped rows.
\<close>

record renderInputs =
  stdoutRows :: "int option"
  selectedSession :: "session option"
  viewMode :: viewMode
  rightContentWidth :: int
  rightTotalCount :: nat

definition paneHeight :: "renderInputs \<Rightarrow> int" where
  "paneHeight r =
     (let rows = (case stdoutRows r of Some n \<Rightarrow> (if n \<noteq> 0 then n else 24) | None \<Rightarrow> 24);
          headerLines = 6;
          footerLines = 1
      in max 4 (rows - headerLines - footerLines))"

definition baseVisibleCount :: "renderInputs \<Rightarrow> int" where
  "baseVisibleCount r = max 1 (paneHeight r - 2)"

definition rightHeaderHeight :: "renderInputs \<Rightarrow> int" where
  "rightHeaderHeight r = (if selectedSession r = None then 0 else 3)"

definition rightVisibleCount :: "renderInputs \<Rightarrow> int" where
  "rightVisibleCount r = max 1 (baseVisibleCount r - rightHeaderHeight r)"

definition maxRightOffset :: "renderInputs \<Rightarrow> int" where
  "maxRightOffset r = max 0 (int (rightTotalCount r) - rightVisibleCount r)"

record paneState =
  rightScrollOffset :: int
  inputs :: renderInputs

text \<open>The keys of the right pane: k or up, j or down, b, f, Ctrl+u, Ctrl+d, g, G.\<close>

datatype scrollKey = LineUp | LineDown | PageBack | PageForward | HalfUp | HalfDown | Home | End

text \<open>\<open>Math.ceil(n / 2)\<close> for an integer \<open>n\<close>.\<close>

definition ceilHalf :: "int \<Rightarrow> int" where
  "ceilHalf n = (n + 1) div 2"

fun handleKey :: "renderInputs \<Rightarrow> scrollKey \<Rightarrow> int \<Rightarrow> int" where
  "handleKey r LineUp prev = max 0 (prev - 1)"
| "handleKey r LineDown prev = min (maxRightOffset r) (prev + 1)"
| "handleKey r PageBack prev = max 0 (prev - rightVisibleCount r)"
| "handleKey r PageForward prev = min (maxRightOffset r) (prev + rightVisibleCount r)"
| "handleKey r HalfUp prev = max 0 (prev - ceilHalf (rightVisibleCount r))"
| "handleKey r HalfDown prev = min (maxRightOffset r) (prev + ceilHalf (rightVisibleCount r))"
| "handleKey r Home prev = 0"
| "handleKey r End prev = maxRightOffset r"

text \<open>
  The two effects that follow a render, in their order in the source: the first re-clamps
  when \<open>maxRightOffset\<close> has changed, the second resets when one of its four
  dependencies has changed.
\<close>

definition runEffects :: "renderInputs \<Rightarrow> renderInputs \<Rightarrow> int \<Rightarrow> int" where
  "runEffects old new prev =
     (let off1 = (if maxRightOffset new \<noteq> maxRightOffset old
                  then min prev (maxRightOffset new) else prev)
      in if selectedSession new \<noteq> selectedSession old \<or> viewMode new \<noteq> viewMode old
            \<or> rightContentWidth new \<noteq> rightContentWidth old
            \<or> rightHeaderHeight new \<noteq> rightHeaderHeight old
         then 0 else off1)"

text \<open>
  A transition: a key of the right pane; a render with new inputs (resize, re-wrap,
  selection, mode toggle) followed by the effects; or the arrival of an extracted
  conversation, which sets the offset to 0 with the new rows.
\<close>

datatype paneEvent =
    Key scrollKey
  | Rerender renderInputs
  | ConversationLoaded nat

fun paneStep :: "paneState \<Rightarrow> paneEvent \<Rightarrow> paneState" where
  "paneStep s (Key k) = s\<lparr>rightScrollOffset := handleKey (inputs s) k (rightScrollOffset s)\<rparr>"
| "paneStep s (Rerender new) =
     \<lparr>rightScrollOffset = runEffects (inputs s) new (rightScrollOffset s), inputs = new\<rparr>"
| "paneStep s (ConversationLoaded n) =
     (let new = (inputs s)\<lparr>rightTotalCount := n\<rparr>
      in \<lparr>rightScrollOffset = runEffects (inputs s) new 0, inputs = new\<rparr>)"

definition paneInit :: "renderInputs \<Rightarrow> paneState" where
  "paneInit r = \<lparr>rightScrollOffset = 0, inputs = r\<rparr>"

section \<open>The two extraction streams, as the specification words them\<close>

text \<open>
  The candidate of a record for the primary stream: an \<open>event_msg\<close> whose payload type
  is \<open>user_message\<close> (the message with its image placeholders), \<open>agent_message\<close> or
  \<open>assistant_message\<close> (the message as it is).
\<close>

definition primaryCandidate :: "json \<Rightarrow> (role \<times> (error + json)) option" where
  "primaryCandidate parsed =
     (if getProp parsed (lit ''type'') = Some (JStr (lit ''event_msg'')) then
        let payload = orElse (getProp parsed (lit ''payload'')) (JObj []);
            msgType = getProp payload (lit ''type'');
            message = orElse (getProp payload (lit ''message'')) (JStr [])
        in if msgType = Some (JStr (lit ''user_message'')) then
             Some (User, appendImages message payload)
           else if msgType = Some (JStr (lit ''agent_message''))
                   \<or> msgType = Some (JStr (lit ''assistant_message'')) then
             Some (Assistant, Inr message)
           else None
      else None)"

text \<open>
  The candidate of a record for the fallback stream: a \<open>response_item\<close> whose payload
  is a \<open>message\<close> of role \<open>user\<close> or \<open>assistant\<close>, with the text of its content parts.
\<close>

definition fallbackCandidate :: "json \<Rightarrow> (role \<times> (error + json)) option" where
  "fallbackCandidate parsed =
     (if getProp parsed (lit ''type'') = Some (JStr (lit ''response_item'')) then
        let payload = orElse (getProp parsed (lit ''payload'')) (JObj [])
        in if getProp payload (lit ''type'') = Some (JStr (lit ''message''))
              \<and> getProp payload (lit ''role'') = Some (JStr (lit ''user'')) then
             Some (User, map_sum id JStr (buildTextFromContent (getProp payload (lit ''content''))))
           else if getProp payload (lit ''type'') = Some (JStr (lit ''message''))
              \<and> getProp payload (lit ''role'') = Some (JStr (lit ''assistant'')) then
             Some (Assistant, map_sum id JStr (buildTextFromContent (getProp payload (lit ''content''))))
           else None
      else None)"

text \<open>A candidate yields an entry when its text was built and is not excluded.\<close>

definition candidateEntries :: "(role \<times> (error + json)) option \<Rightarrow> entry list" where
  "candidateEntries c =
     (case c of
        Some (r, Inr t) \<Rightarrow>
          (if shouldExcludeText t = Inr False then [\<lparr>erole = r, etext = t\<rparr>] else [])
      | _ \<Rightarrow> [])"

text \<open>A candidate raises when building its text or testing it for exclusion throws.\<close>

definition candidateRaises :: "(role \<times> (error + json)) option \<Rightarrow> bool" where
  "candidateRaises c =
     (case c of
        Some (r, Inl e) \<Rightarrow> True
      | Some (r, Inr t) \<Rightarrow> shouldExcludeText t = Inl TypeError
      | None \<Rightarrow> False)"

text \<open>The record of a line: none for a blank line or one that does not parse.\<close>

definition recordOf :: "(jsstring \<Rightarrow> json option) \<Rightarrow> jsstring \<Rightarrow> json option" where
  "recordOf parse line = (if trim line = [] then None else parse line)"

definition primaryEntries :: "(jsstring \<Rightarrow> json option) \<Rightarrow> jsstring list \<Rightarrow> entry list" where
  "primaryEntries parse lines =
     concat (map (\<lambda>line. case recordOf parse line of
                            Some parsed \<Rightarrow> candidateEntries (primaryCandidate parsed)
                          | None \<Rightarrow> []) lines)"

definition fallbackEntries :: "(jsstring \<Rightarrow> json option) \<Rightarrow> jsstring list \<Rightarrow> entry list" where
  "fallbackEntries parse lines =
     concat (map (\<lambda>line. case recordOf parse line of
                            Some parsed \<Rightarrow> candidateEntries (fallbackCandidate parsed)
                          | None \<Rightarrow> []) lines)"

definition lineRaises :: "(jsstring \<Rightarrow> json option) \<Rightarrow> jsstring \<Rightarrow> bool" where
  "lineRaises parse line =
     (case recordOf parse line of
        Some parsed \<Rightarrow> candidateRaises (primaryCandidate parsed)
                        \<or> candidateRaises (fallbackCandidate parsed)
      | None \<Rightarrow> False)"

text \<open>
  The image references of a payload, counted over its two fields, and the placeholder
  tokens \<open>[image 1]\<close> to \<open>[image n]\<close>.
\<close>

definition imageCount :: "json \<Rightarrow> nat" where
  "imageCount payload =
     length (arrayItems (getProp payload (lit ''images'')))
     + length (arrayItems (getProp payload (lit ''local_images'')))"

definition placeholderTokens :: "nat \<Rightarrow> jsstring list" where
  "placeholderTokens n = map (\<lambda>i. lit ''[image '' @ showNat i @ lit '']'') [1 ..< n + 1]"


section \<open>The session order, as the specification words it\<close>

text \<open>
  \<open>a\<close> may stand before \<open>b\<close>: its sort key is greater, or the keys are equal and its
  label is not after the other's.
\<close>

definition sessionBefore :: "(jsstring \<Rightarrow> jsstring \<Rightarrow> int) \<Rightarrow> session \<Rightarrow> session \<Rightarrow> bool" where
  "sessionBefore localeCompare a b \<longleftrightarrow>
     sortKey a > sortKey b \<or> (sortKey a = sortKey b \<and> localeCompare (label a) (label b) \<le> 0)"

section \<open>Sample inputs\<close>

text \<open>
  Lines of a session log, and \<open>JSON.parse\<close> on them: each sample line parses to the
  record written beside it, and any other text here does not parse.
\<close>

definition fallbackLine :: jsstring where
  \<open>fallbackLine = lit ''{"type":"response_item","payload":{"type":"message","role":"user","content":[{"type":"input_text","text":"hi"}]}}''\<close>

definition agentLine :: jsstring where
  \<open>agentLine = lit ''{"type":"event_msg","payload":{"type":"agent_message","message":"hello"}}''\<close>

definition numericMessageLine :: jsstring where
  \<open>numericMessageLine = lit ''{"type":"event_msg","payload":{"type":"agent_message","message":5}}''\<close>

definition imagesLine :: jsstring where
  \<open>imagesLine = lit ''{"type":"event_msg","payload":{"type":"user_message","message":"","images":["a.png","b.png"]}}''\<close>

definition fallbackRecord :: json where
  "fallbackRecord =
     JObj [(lit ''type'', JStr (lit ''response_item'')),
           (lit ''payload'',
            JObj [(lit ''type'', JStr (lit ''message'')),
                  (lit ''role'', JStr (lit ''user'')),
                  (lit ''content'',
                   JArr [JObj [(lit ''type'', JStr (lit ''input_text'')),
                               (lit ''text'', JStr (lit ''hi''))]])])]"

definition agentRecord :: json where
  "agentRecord =
     JObj [(lit ''type'', JStr (lit ''event_msg'')),
           (lit ''payload'',
            JObj [(lit ''type'', JStr (lit ''agent_message'')),
                  (lit ''message'', JStr (lit ''hello''))])]"

definition numericMessageRecord :: json where
  "numericMessageRecord =
     JObj [(lit ''type'', JStr (lit ''event_msg'')),
           (lit ''payload'',
            JObj [(lit ''type'', JStr (lit ''agent_message'')),
                  (lit ''message'', JNum (lit ''5''))])]"

definition imagesRecord :: json where
  "imagesRecord =
     JObj [(lit ''type'', JStr (lit ''event_msg'')),
           (lit ''payload'',
            JObj [(lit ''type'', JStr (lit ''user_message'')),
                  (lit ''message'', JStr []),
                  (lit ''images'', JArr [JStr (lit ''a.png''), JStr (lit ''b.png'')])])]"

definition parseSample :: "jsstring \<Rightarrow> json option" where
  "parseSample line =
     (if line = fallbackLine then Some fallbackRecord
      else if line = agentLine then Some agentRecord
      else if line = numericMessageLine then Some numericMessageRecord
      else if line = imagesLine then Some imagesRecord
      else None)"

text \<open>Render inputs of a 13-row terminal with ten wrapped rows and no session selected.\<close>

definition sampleInputs :: renderInputs where
  "sampleInputs =
     \<lparr>stdoutRows = Some 13, selectedSession = None, viewMode = Pretty,
      rightContentWidth = 93, rightTotalCount = 10\<rparr>"

text \<open>A descriptor builder for files without metadata: the path as label, sort key 0.\<close>

definition sampleDescribe :: "jsstring \<Rightarrow> error + session" where
  "sampleDescribe filePath =
     Inr \<lparr>sid = JNull, label = filePath, path = Some filePath, sortKey = 0\<rparr>"

text \<open>
  Two \<open>user_message\<close> records with one image whose message is not a string: an object
  with a \<open>toString\<close> member, and the empty array.
\<close>

definition toStringMessageRecord :: json where
  "toStringMessageRecord =
     JObj [(lit ''type'', JStr (lit ''event_msg'')),
           (lit ''payload'',
            JObj [(lit ''type'', JStr (lit ''user_message'')),
                  (lit ''message'', JObj [(lit ''toString'', JNum (lit ''1''))]),
                  (lit ''images'', JArr [JStr (lit ''a.png'')])])]"

definition emptyArrayMessageRecord :: json where
  "emptyArrayMessageRecord =
     JObj [(lit ''type'', JStr (lit ''event_msg'')),
           (lit ''payload'',
            JObj [(lit ''type'', JStr (lit ''user_message'')),
                  (lit ''message'', JArr []),
                  (lit ''images'', JArr [JStr (lit ''a.png'')])])]"

text \<open>Sessions for the export path: a string id, no id, no id and no path, an object id.\<close>

definition idSession :: session where
  "idSession = \<lparr>sid = JStr (lit ''abc''), label = lit ''x'', path = Some (lit ''/r/a.jsonl''),
                 sortKey = 1\<rparr>"

definition pathSession :: session where
  "pathSession = \<lparr>sid = JNull, label = lit ''x'', path = Some (lit ''/r/a.jsonl''), sortKey = 1\<rparr>"

definition bareSession :: session where
  "bareSession = \<lparr>sid = JNull, label = lit ''x'', path = None, sortKey = 1\<rparr>"

definition objectIdSession :: session where
  "objectIdSession =
     \<lparr>sid = JObj [(lit ''toString'', JNum (lit ''1''))], label = lit ''x'',
      path = Some (lit ''/r/a.jsonl''), sortKey = 1\<rparr>"

text \<open>A pane of these inputs, scrolled to its last offset.\<close>

definition samplePane :: paneState where
  "samplePane = \<lparr>rightScrollOffset = 6, inputs = sampleInputs\<rparr>"

text \<open>A row whose text is one carriage return, as a blank line of a CRLF text gives.\<close>

definition crRow :: row where
  "crRow = \<lparr>rtype = TextRow, rrole = None, rtext = CR\<rparr>"

text \<open>
  Stand-ins for \<open>path.join\<close> and \<open>path.basename\<close> on simple POSIX paths (no trailing
  slash, no dot segments).
\<close>

definition sampleJoin :: "jsstring \<Rightarrow> jsstring \<Rightarrow> jsstring" where
  "sampleJoin a b = a @ lit ''/'' @ b"

definition sampleBasename :: "jsstring \<Rightarrow> jsstring \<Rightarrow> jsstring" where
  "sampleBasename p ext =
     (let b = rev (takeWhile (\<lambda>u. u \<noteq> 0x2F) (rev p))
      in if endsWith b ext \<and> b \<noteq> ext then take (length b - length ext) b else b)"

section \<open>Invariants used in the proofs\<close>

text \<open>
  The invariant of the loop of \<open>wrapText\<close> for the width bound: every pushed line is
  within the width or is one over-wide code point, and the recorded width of the current
  line bounds its display width and is below the width.
\<close>

definition lineOk :: "int \<Rightarrow> jsstring \<Rightarrow> bool" where
  "lineOk w l \<longleftrightarrow> stringWidth l \<le> w \<or> (chars_of l = [l] \<and> w < charWidth l)"

definition wrapInv :: "int \<Rightarrow> wrapState \<Rightarrow> bool" where
  "wrapInv w st \<longleftrightarrow>
     (case st of (lines, line, lineWidth) \<Rightarrow>
        (\<forall>l \<in> set lines. lineOk w l) \<and> stringWidth line \<le> lineWidth \<and> lineWidth < w)"

definition paneInv :: "paneState \<Rightarrow> bool" where
  "paneInv s \<longleftrightarrow> 0 \<le> rightScrollOffset s \<and> rightScrollOffset s \<le> maxRightOffset (inputs s)"

text \<open>
  For the second wrap pass: \<open>crOnly\<close> holds of a non-empty text made of carriage
  returns only. \<open>expandChars\<close> is what the loop of \<open>wrapText\<close> places: carriage returns
  dropped, a tab as two spaces. A \<open>glyph\<close> is one placed code point. A list of glyphs
  \<open>fits\<close> when the loop, started on an empty line, places all of them on one line.
\<close>

definition crOnly :: "jsstring \<Rightarrow> bool" where
  "crOnly t \<longleftrightarrow> t \<noteq> [] \<and> list_all (\<lambda>u. u = 0x0D) t"

definition expandChars :: "jsstring list \<Rightarrow> jsstring list" where
  "expandChars cs =
     concat (map (\<lambda>c. if c = CR then [] else if c = TAB then [[0x20], [0x20]] else [c]) cs)"

definition glyph :: "jsstring \<Rightarrow> bool" where
  "glyph c \<longleftrightarrow> chars_of c = [c] \<and> c \<noteq> CR \<and> c \<noteq> TAB"

definition fits :: "int \<Rightarrow> jsstring list \<Rightarrow> bool" where
  "fits w cs \<longleftrightarrow>
     sum_list (map charWidth (butlast cs)) < w
     \<and> (2 \<le> length cs \<longrightarrow> sum_list (map charWidth cs) \<le> w)"

definition lineGood :: "int \<Rightarrow> jsstring \<Rightarrow> bool" where
  "lineGood w l \<longleftrightarrow> (\<exists>cs. cs \<noteq> [] \<and> l = concat cs \<and> (\<forall>c \<in> set cs. glyph c) \<and> fits w cs)"

definition stableInv :: "int \<Rightarrow> wrapState \<Rightarrow> bool" where
  "stableInv w st \<longleftrightarrow>
     (case st of (lines, line, lineWidth) \<Rightarrow>
        (\<forall>l \<in> set lines. lineGood w l)
        \<and> (\<exists>cs. line = concat cs \<and> (\<forall>c \<in> set cs. glyph c)
                 \<and> lineWidth = sum_list (map charWidth cs) \<and> lineWidth < w))"

section \<open>Strings: basic facts\<close>

lemma unat_of_char: "unat (of_char c :: 16 word) = of_char c"
proof -
  have "(of_char c :: nat) < 2 ^ 16"
    by (rule less_trans [OF nat_of_char_less_256]) simp
  then have "(of_char c :: nat) mod 2 ^ 16 = of_char c" by (rule mod_less)
  moreover have "(of_char c :: 16 word) = of_nat (of_char c)" by (simp add: of_nat_of_char)
  ultimately show ?thesis by (simp add: unat_of_nat)
qed

lemma inj_of_char_word: "inj (of_char :: char \<Rightarrow> 16 word)"
proof (rule injI)
  fix c d :: char
  assume "(of_char c :: 16 word) = of_char d"
  then have "unat (of_char c :: 16 word) = unat (of_char d :: 16 word)" by simp
  then show "c = d" by (simp add: unat_of_char)
qed

lemma lit_eq_iff [simp]: "lit a = lit b \<longleftrightarrow> a = b"
  unfolding lit_def by (rule inj_map_eq_map) (rule inj_of_char_word)

lemma error_is_TypeError [simp]: "(e::error) = TypeError"
  by (cases e) simp

lemma low_not_high: "isLowSurrogate v \<Longrightarrow> \<not> isHighSurrogate v"
  unfolding isLowSurrogate_def isHighSurrogate_def by unat_arith

lemma chars_of_not_high: "\<not> isHighSurrogate v \<Longrightarrow> chars_of (v # r) = [v] # chars_of r"
  by (cases r) auto

lemma chars_of_elem: "c \<in> set (chars_of t) \<Longrightarrow> chars_of c = [c]"
  by (induction t rule: chars_of.induct) (auto split: if_splits)

lemma charWidth_nonneg: "0 \<le> charWidth c"
  by (simp add: charWidth_def Let_def)

lemma foldl_width_sum:
  "foldl (\<lambda>width char. width + charWidth char) a cs = a + sum_list (map charWidth cs)"
  by (induction cs arbitrary: a) simp_all

lemma stringWidth_chars: "stringWidth t = sum_list (map charWidth (chars_of t))"
  by (simp add: stringWidth_def foldl_width_sum)

lemma stringWidth_Nil: "stringWidth [] = 0"
  by (simp add: stringWidth_def)

lemma stringWidth_single: "chars_of c = [c] \<Longrightarrow> stringWidth c = charWidth c"
  by (simp add: stringWidth_chars)

lemma charWidth_surrogate: "isHighSurrogate u \<or> isLowSurrogate u \<Longrightarrow> charWidth [u] = 2"
  unfolding isLowSurrogate_def isHighSurrogate_def charWidth_def Let_def
  by (auto simp: word_le_nat_alt)

lemma charWidth_pair: "isHighSurrogate u \<Longrightarrow> isLowSurrogate v \<Longrightarrow> charWidth (u # v # r) = 2"
  by (simp add: charWidth_def Let_def)

text \<open>
  Joining two strings can only merge a lone high surrogate with a lone low one, which
  makes the display width smaller.
\<close>

lemma stringWidth_append_le: "stringWidth (a @ b) \<le> stringWidth a + stringWidth b"
proof (induction a rule: chars_of.induct)
  case 1
  show ?case by (simp add: stringWidth_chars)
next
  case (2 u)
  show ?case
  proof (cases b)
    case Nil
    then show ?thesis by (simp add: stringWidth_chars)
  next
    case (Cons v r)
    show ?thesis
    proof (cases "isHighSurrogate u \<and> isLowSurrogate v")
      case True
      then have "chars_of (v # r) = [v] # chars_of r"
        by (simp add: chars_of_not_high low_not_high)
      with True Cons show ?thesis
        by (simp add: stringWidth_chars charWidth_pair charWidth_surrogate)
    next
      case False
      with Cons show ?thesis by (auto simp: stringWidth_chars)
    qed
  qed
next
  case (3 u v r)
  then show ?case by (simp add: stringWidth_chars)
qed

section \<open>The width bound of wrapText\<close>

lemma wrapPut_inv:
  assumes "1 \<le> w" "wrapInv w st" "chars_of c = [c]"
  shows "wrapInv w (wrapPut w st c)"
proof -
  obtain lines line lw where st: "st = (lines, line, lw)" by (cases st)
  from assms(2) st have ok: "\<forall>l \<in> set lines. lineOk w l"
    and sw: "stringWidth line \<le> lw" and lt: "lw < w"
    by (simp_all add: wrapInv_def)
  have swc: "stringWidth c = charWidth c" using assms(3) by (rule stringWidth_single)
  have app: "stringWidth (line @ c) \<le> stringWidth line + charWidth c"
    using stringWidth_append_le [of line c] swc by simp
  have lineok: "lineOk w line" using sw lt by (simp add: lineOk_def)
  have cok: "lineOk w c" using swc assms(3) by (auto simp: lineOk_def)
  show ?thesis
  proof (cases "lw + charWidth c > w \<and> line \<noteq> []")
    case True
    then show ?thesis using st ok lineok cok swc assms(1) charWidth_nonneg [of c]
      by (auto simp: wrapPut_def wrapInv_def Let_def stringWidth_Nil)
  next
    case False
    show ?thesis
    proof (cases "line = []")
      case True
      then show ?thesis using st ok cok swc lt charWidth_nonneg [of c] sw assms(1)
        by (auto simp: wrapPut_def wrapInv_def Let_def stringWidth_Nil)
    next
      case nonempty: False
      with False have fit: "lw + charWidth c \<le> w" by simp
      have "lineOk w (line @ c)" using app sw fit by (simp add: lineOk_def)
      then show ?thesis using st ok False app sw assms(1) nonempty
        by (auto simp: wrapPut_def wrapInv_def Let_def stringWidth_Nil)
    qed
  qed
qed

lemma foldl_wrapPut_inv:
  "1 \<le> w \<Longrightarrow> wrapInv w st \<Longrightarrow> \<forall>c \<in> set cs. chars_of c = [c]
     \<Longrightarrow> wrapInv w (foldl (wrapPut w) st cs)"
  by (induction cs arbitrary: st) (simp_all add: wrapPut_inv)

lemma wrapStep_inv:
  assumes "1 \<le> w" "wrapInv w st" "chars_of c = [c]"
  shows "wrapInv w (wrapStep w st c)"
  using assms
  by (auto simp: wrapStep_def wrapPut_inv chars_of_elem intro!: foldl_wrapPut_inv)

lemma foldl_wrapStep_inv:
  "1 \<le> w \<Longrightarrow> wrapInv w st \<Longrightarrow> \<forall>c \<in> set cs. chars_of c = [c]
     \<Longrightarrow> wrapInv w (foldl (wrapStep w) st cs)"
  by (induction cs arbitrary: st) (simp_all add: wrapStep_inv)

text \<open>
  C2. For every text and every width \<open>w \<ge> 1\<close>, each line \<open>wrapText\<close> produces has a
  display width (\<open>stringWidth\<close>, by the \<open>charWidth\<close> rule) of at most \<open>w\<close>, or is a single
  code point whose own width exceeds \<open>w\<close>.
\<close>

theorem wrapText_width_bound:
  assumes "1 \<le> w" and "l \<in> set (wrapText t w)"
  shows "stringWidth l \<le> w \<or> (chars_of l = [l] \<and> w < charWidth l)"
proof -
  have init: "wrapInv w ([], [], 0)" using assms(1) by (simp add: wrapInv_def stringWidth_Nil)
  have "wrapInv w (foldl (wrapStep w) ([], [], 0) (chars_of t))"
    using assms(1) init by (rule foldl_wrapStep_inv) (simp add: chars_of_elem)
  moreover obtain lines line lw
    where run: "foldl (wrapStep w) ([], [], 0) (chars_of t) = (lines, line, lw)"
    by (cases "foldl (wrapStep w) ([], [], 0) (chars_of t)")
  ultimately have ok: "\<forall>l \<in> set lines. lineOk w l" and last: "lineOk w line"
    by (auto simp: wrapInv_def lineOk_def)
  have sp: "lineOk w (lit '' '')" using assms(1)
    by (simp add: lineOk_def lit_def stringWidth_chars charWidth_def)
  have "lineOk w l"
    using assms ok last sp run by (auto simp: wrapText_def split: if_splits)
  then show ?thesis by (simp add: lineOk_def)
qed

theorem wrapText_width_bound_witness:
  "(1::int) \<le> 3 \<and> lit ''d'' \<in> set (wrapText (lit ''abcd'') 3)
     \<and> (stringWidth (lit ''d'') \<le> 3
          \<or> (chars_of (lit ''d'') = [lit ''d''] \<and> 3 < charWidth (lit ''d'')))"
proof -
  have h: "(1::int) \<le> 3" by simp
  have m: "lit ''d'' \<in> set (wrapText (lit ''abcd'') 3)" by code_simp
  show ?thesis using wrapText_width_bound [OF h m] h m by simp
qed

text \<open>
  C9. \<open>wrapText\<close> returns at least one line for every text and width; for every width
  \<open>w \<le> 0\<close> it returns exactly one line, the text unchanged (tabs, carriage returns and
  all), so the empty text at such a width gives one empty line.
\<close>

theorem wrapText_total:
  "length (wrapText t w) \<ge> 1 \<and> (w \<le> 0 \<longrightarrow> wrapText t w = [t])"
proof -
  obtain lines line lw
    where run: "foldl (wrapStep w) ([], [], 0) (chars_of t) = (lines, line, lw)"
    by (cases "foldl (wrapStep w) ([], [], 0) (chars_of t)")
  have "length lines = 0 \<or> 1 \<le> length lines" by (cases lines) simp_all
  then have "length (wrapText t w) \<ge> 1"
    using run by (auto simp: wrapText_def)
  moreover have "w \<le> 0 \<longrightarrow> wrapText t w = [t]" by (simp add: wrapText_def)
  ultimately show ?thesis by simp
qed

theorem wrapText_total_witness:
  "(0::int) \<le> 0 \<and> wrapText (lit ''a'' @ TAB @ CR) 0 = [lit ''a'' @ TAB @ CR]
   \<and> wrapText [] (- 2) = [[]] \<and> length (wrapText (lit ''abc'') 2) \<ge> 1"
  using wrapText_total [of "lit ''a'' @ TAB @ CR" 0] wrapText_total [of "[]" "- 2"]
    wrapText_total [of "lit ''abc''" 2]
  by simp


section \<open>Label truncation\<close>





section \<open>The sample lines\<close>

lemma trim_nonblank:
  assumes "s \<noteq> []" "\<not> isWhiteSpace (hd s)" "\<not> isWhiteSpace (last s)"
  shows "trim s = s"
proof -
  from assms have "dropWhile isWhiteSpace s = s" by (cases s) simp_all
  moreover from assms have "dropWhile isWhiteSpace (rev s) = rev s"
    by (cases "rev s") (simp_all add: last_rev [symmetric] hd_rev)
  ultimately show ?thesis by (simp add: trim_def)
qed

lemma sample_lines_trim:
  "trim fallbackLine = fallbackLine" "trim agentLine = agentLine"
  "trim numericMessageLine = numericMessageLine" "trim imagesLine = imagesLine"
  "trim (lit '' '') = []"
  by (rule trim_nonblank;
      simp add: fallbackLine_def agentLine_def numericMessageLine_def imagesLine_def lit_def
        isWhiteSpace_def)+
     (simp add: trim_def lit_def isWhiteSpace_def)

lemma sample_lines_nonempty:
  "fallbackLine \<noteq> []" "agentLine \<noteq> []" "numericMessageLine \<noteq> []" "imagesLine \<noteq> []"
  by (simp_all add: fallbackLine_def agentLine_def numericMessageLine_def imagesLine_def lit_def)

lemma sample_lines_parse:
  "parseSample fallbackLine = Some fallbackRecord"
  "parseSample agentLine = Some agentRecord"
  "parseSample numericMessageLine = Some numericMessageRecord"
  "parseSample imagesLine = Some imagesRecord"
  "parseSample (lit ''not json'') = None"
  by (simp_all add: parseSample_def fallbackLine_def agentLine_def numericMessageLine_def
      imagesLine_def)

lemma sample_lines_record:
  "recordOf parseSample fallbackLine = Some fallbackRecord"
  "recordOf parseSample agentLine = Some agentRecord"
  "recordOf parseSample numericMessageLine = Some numericMessageRecord"
  "recordOf parseSample (lit '' '') = None"
  "recordOf parseSample (lit ''not json'') = None"
  by (simp_all add: recordOf_def sample_lines_trim sample_lines_nonempty sample_lines_parse)

lemma sample_records:
  "candidateEntries (primaryCandidate fallbackRecord) = []"
  "candidateEntries (fallbackCandidate fallbackRecord) = [\<lparr>erole = User, etext = JStr (lit ''hi'')\<rparr>]"
  "candidateEntries (primaryCandidate agentRecord) = [\<lparr>erole = Assistant, etext = JStr (lit ''hello'')\<rparr>]"
  "candidateEntries (fallbackCandidate agentRecord) = []"
  "candidateEntries (primaryCandidate numericMessageRecord) = []"
  "candidateEntries (fallbackCandidate numericMessageRecord) = []"
  "\<not> candidateRaises (primaryCandidate fallbackRecord)"
  "\<not> candidateRaises (fallbackCandidate fallbackRecord)"
  "\<not> candidateRaises (primaryCandidate agentRecord)"
  "\<not> candidateRaises (fallbackCandidate agentRecord)"
  "candidateRaises (primaryCandidate numericMessageRecord)"
  by code_simp+

lemma images_record:
  "eventMsgBlock imagesRecord []
     = Inr [\<lparr>erole = User, etext = JStr (lit ''[image 1]'' @ [0x0A] @ lit ''[image 2]'')\<rparr>]"
  "responseItemBlock imagesRecord [] = Inr []"
  by code_simp+

section \<open>Image placeholders\<close>

lemma imagePlaceholders_tokens:
  "imagePlaceholders payload = placeholderTokens (imageCount payload)"
proof -
  have "map (\<lambda>index. lit ''[image '' @ showNat (index + 1) @ lit '']'') [0 ..< n]
          = map (\<lambda>i. lit ''[image '' @ showNat i @ lit '']'') [1 ..< n + 1]" for n
  proof -
    have "[1 ..< n + 1] = map Suc [0 ..< n]" by (simp add: map_Suc_upt)
    then show ?thesis by (simp add: comp_def)
  qed
  then show ?thesis
    by (simp add: imagePlaceholders_def placeholderTokens_def imageCount_def Let_def)
qed

lemma length_placeholderTokens: "length (placeholderTokens n) = n"
  by (simp add: placeholderTokens_def)

lemma placeholderTokens_Nil_iff: "placeholderTokens n = [] \<longleftrightarrow> n = 0"
  using length_placeholderTokens [of n] by (metis length_0_conv)

text \<open>
  C8, as amended. For every \<open>user_message\<close> record the text is built by \<open>appendImages\<close>
  from \<open>payload.message || ""\<close> and the payload, with \<open>n\<close> image references counted
  over the two fields (\<open>images\<close> first, then \<open>local_images\<close>). When the message is a
  string or falsy: with no image the text is the body; otherwise the tokens \<open>[image 1]\<close>
  to \<open>[image n]\<close>, one per line, follow the body after one blank line, or stand alone
  when the body is empty. When the message is a truthy value that is not a string and
  there are images, its \<open>String\<close> conversion takes the place of the body and the tokens
  follow it after one blank line, also when the conversion is empty; when the conversion
  throws, the record throws. The record with images \<open>a.png\<close>, \<open>b.png\<close> and an empty
  message yields the one entry with text \<open>[image 1]\<close>, newline, \<open>[image 2]\<close>.
\<close>

theorem appendImages_placeholders:
  "appendImages (JStr body) payload
     = Inr (JStr (if imageCount payload = 0 then body
                  else if body = [] then joinStr [0x0A] (placeholderTokens (imageCount payload))
                  else body @ [0x0A, 0x0A] @ joinStr [0x0A] (placeholderTokens (imageCount payload))))
   \<and> (imageCount payload = 0 \<longrightarrow> appendImages v payload = Inr v)
   \<and> (imageCount payload \<noteq> 0 \<and> \<not> truthy (Some v) \<longrightarrow>
        appendImages v payload = Inr (JStr (joinStr [0x0A] (placeholderTokens (imageCount payload)))))
   \<and> (imageCount payload \<noteq> 0 \<and> truthy (Some v) \<and> toStr v = Inr s \<longrightarrow>
        appendImages v payload
          = Inr (JStr (s @ [0x0A, 0x0A] @ joinStr [0x0A] (placeholderTokens (imageCount payload)))))
   \<and> (imageCount payload \<noteq> 0 \<and> truthy (Some v) \<and> toStr v = Inl e \<longrightarrow>
        appendImages v payload = Inl e)
   \<and> (getProp parsed (lit ''type'') = Some (JStr (lit ''event_msg''))
       \<and> getProp (orElse (getProp parsed (lit ''payload'')) (JObj [])) (lit ''type'')
           = Some (JStr (lit ''user_message''))
      \<longrightarrow> eventMsgBlock parsed ev =
            (case appendImages
                    (orElse (getProp (orElse (getProp parsed (lit ''payload'')) (JObj []))
                               (lit ''message'')) (JStr []))
                    (orElse (getProp parsed (lit ''payload'')) (JObj [])) of
               Inl err \<Rightarrow> Inl err
             | Inr t \<Rightarrow>
                 (case shouldExcludeText t of
                    Inl err \<Rightarrow> Inl err
                  | Inr excluded \<Rightarrow>
                      Inr (if excluded then ev else ev @ [\<lparr>erole = User, etext = t\<rparr>]))))
   \<and> extractConversation parseSample [imagesLine]
       = Inr [\<lparr>erole = User, etext = JStr (lit ''[image 1]'' @ [0x0A] @ lit ''[image 2]'')\<rparr>]"
proof -
  have ex: "extractConversation parseSample [imagesLine]
       = Inr [\<lparr>erole = User, etext = JStr (lit ''[image 1]'' @ [0x0A] @ lit ''[image 2]'')\<rparr>]"
    by (simp add: extractConversation_def sample_lines_trim sample_lines_nonempty
        sample_lines_parse images_record)
  have str: "appendImages (JStr body) payload
     = Inr (JStr (if imageCount payload = 0 then body
                  else if body = [] then joinStr [0x0A] (placeholderTokens (imageCount payload))
                  else body @ [0x0A, 0x0A] @ joinStr [0x0A] (placeholderTokens (imageCount payload))))"
    by (simp add: appendImages_def imagePlaceholders_tokens length_placeholderTokens
        placeholderTokens_Nil_iff Let_def)
  have gen: "appendImages v payload =
      (if imageCount payload = 0 then Inr v
       else if \<not> truthy (Some v)
       then Inr (JStr (joinStr [0x0A] (placeholderTokens (imageCount payload))))
       else (case toStr v of
               Inl err \<Rightarrow> Inl err
             | Inr r \<Rightarrow>
                 Inr (JStr (r @ [0x0A, 0x0A] @ joinStr [0x0A] (placeholderTokens (imageCount payload))))))"
    by (simp add: appendImages_def imagePlaceholders_tokens length_placeholderTokens
        placeholderTokens_Nil_iff Let_def)
  have rec: "eventMsgBlock parsed ev =
            (case appendImages
                    (orElse (getProp (orElse (getProp parsed (lit ''payload'')) (JObj []))
                               (lit ''message'')) (JStr []))
                    (orElse (getProp parsed (lit ''payload'')) (JObj [])) of
               Inl err \<Rightarrow> Inl err
             | Inr t \<Rightarrow>
                 (case shouldExcludeText t of
                    Inl err \<Rightarrow> Inl err
                  | Inr excluded \<Rightarrow>
                      Inr (if excluded then ev else ev @ [\<lparr>erole = User, etext = t\<rparr>])))"
    if "getProp parsed (lit ''type'') = Some (JStr (lit ''event_msg''))
       \<and> getProp (orElse (getProp parsed (lit ''payload'')) (JObj [])) (lit ''type'')
           = Some (JStr (lit ''user_message''))"
    using that by (simp add: eventMsgBlock_def Let_def split: sum.splits)
  from ex str rec show ?thesis by (simp add: gen)
qed

theorem appendImages_placeholders_witness:
  "appendImages (JStr (lit ''look''))
       (JObj [(lit ''images'', JArr [JStr (lit ''a.png'')]),
              (lit ''local_images'', JArr [JStr (lit ''b.png''), JStr (lit ''c.png'')])])
     = Inr (JStr (lit ''look'' @ [0x0A, 0x0A] @ lit ''[image 1]'' @ [0x0A] @ lit ''[image 2]''
                  @ [0x0A] @ lit ''[image 3]''))
   \<and> appendImages (JStr [])
       (JObj [(lit ''images'', JArr [JStr (lit ''a.png'')]),
              (lit ''local_images'', JArr [JStr (lit ''b.png''), JStr (lit ''c.png'')])])
     = Inr (JStr (lit ''[image 1]'' @ [0x0A] @ lit ''[image 2]'' @ [0x0A] @ lit ''[image 3]''))
   \<and> appendImages (JStr (lit ''look'')) (JObj []) = Inr (JStr (lit ''look''))
   \<and> appendImages (JBool True)
       (JObj [(lit ''images'', JArr [JStr (lit ''a.png'')]),
              (lit ''local_images'', JArr [JStr (lit ''b.png''), JStr (lit ''c.png'')])])
     = Inr (JStr (lit ''true'' @ [0x0A, 0x0A] @ lit ''[image 1]'' @ [0x0A] @ lit ''[image 2]''
                  @ [0x0A] @ lit ''[image 3]''))
   \<and> appendImages (JObj [(lit ''toString'', JNum (lit ''1''))])
       (JObj [(lit ''images'', JArr [JStr (lit ''a.png'')]),
              (lit ''local_images'', JArr [JStr (lit ''b.png''), JStr (lit ''c.png'')])])
     = Inl TypeError
   \<and> eventMsgBlock imagesRecord []
     = Inr [\<lparr>erole = User, etext = JStr (lit ''[image 1]'' @ [0x0A] @ lit ''[image 2]'')\<rparr>]"
proof -
  let ?p = "JObj [(lit ''images'', JArr [JStr (lit ''a.png'')]),
                  (lit ''local_images'', JArr [JStr (lit ''b.png''), JStr (lit ''c.png'')])]"
  let ?o = "JObj [(lit ''toString'', JNum (lit ''1''))]"
  have n: "imageCount ?p = 3" "imageCount (JObj []) = 0"
    by (simp_all add: imageCount_def arrayItems_def)
  have t: "joinStr [0x0A] (placeholderTokens 3)
             = lit ''[image 1]'' @ [0x0A] @ lit ''[image 2]'' @ [0x0A] @ lit ''[image 3]''"
    by code_simp
  have b: "lit ''look'' \<noteq> []" by (simp add: lit_def)
  have tb: "truthy (Some (JBool True))" "toStr (JBool True) = Inr (lit ''true'')" by simp_all
  have to: "truthy (Some ?o)" "toStr ?o = Inl TypeError" by simp_all
  have ty: "getProp imagesRecord (lit ''type'') = Some (JStr (lit ''event_msg''))
       \<and> getProp (orElse (getProp imagesRecord (lit ''payload'')) (JObj [])) (lit ''type'')
           = Some (JStr (lit ''user_message''))"
    by (simp add: imagesRecord_def orElse_def)
  have ir: "eventMsgBlock imagesRecord []
     = Inr [\<lparr>erole = User, etext = JStr (lit ''[image 1]'' @ [0x0A] @ lit ''[image 2]'')\<rparr>]"
    by (rule images_record)
  show ?thesis
    using appendImages_placeholders [where body = "lit ''look''" and payload = ?p
        and v = "JBool True" and s = "lit ''true''"]
      appendImages_placeholders [where body = "[]" and payload = ?p and v = ?o and e = TypeError]
      appendImages_placeholders [where body = "lit ''look''" and payload = "JObj []"
        and v = "JStr (lit ''look'')" and parsed = imagesRecord and ev = "[]"]
      n t b tb to ty ir
    by simp
qed

text \<open>
  C8 as stated fails. With one image, the record whose message is an object with a
  \<open>toString\<close> member throws instead of yielding a text, and the record whose message is
  the empty array yields the blank-line join in front of a body that is empty.
\<close>

theorem appendImages_counterexample:
  "eventMsgBlock toStringMessageRecord [] = Inl TypeError
   \<and> eventMsgBlock emptyArrayMessageRecord []
       = Inr [\<lparr>erole = User, etext = JStr ([0x0A, 0x0A] @ lit ''[image 1]'')\<rparr>]"
  by code_simp

section \<open>The extraction streams\<close>

lemma eventMsgBlock_streams:
  assumes "\<not> candidateRaises (primaryCandidate parsed)"
  shows "eventMsgBlock parsed ev = Inr (ev @ candidateEntries (primaryCandidate parsed))"
  using assms
  unfolding eventMsgBlock_def primaryCandidate_def candidateRaises_def candidateEntries_def Let_def
  by (auto split: sum.splits if_splits error.splits)

lemma responseItemBlock_streams:
  assumes "\<not> candidateRaises (fallbackCandidate parsed)"
  shows "responseItemBlock parsed fb = Inr (fb @ candidateEntries (fallbackCandidate parsed))"
  using assms
  unfolding responseItemBlock_def fallbackCandidate_def candidateRaises_def candidateEntries_def Let_def
  by (auto split: sum.splits if_splits error.splits)

lemma eventMsgBlock_raises:
  assumes "candidateRaises (primaryCandidate parsed)"
  shows "eventMsgBlock parsed ev = Inl TypeError"
  using assms
  unfolding eventMsgBlock_def primaryCandidate_def candidateRaises_def Let_def
  by (auto split: sum.splits if_splits)

lemma responseItemBlock_raises:
  assumes "candidateRaises (fallbackCandidate parsed)"
  shows "responseItemBlock parsed fb = Inl TypeError"
  using assms
  unfolding responseItemBlock_def fallbackCandidate_def candidateRaises_def Let_def
  by (auto split: sum.splits if_splits)

lemma extractLoop_streams:
  "\<forall>line \<in> set lines. \<not> lineRaises parse line \<Longrightarrow>
   extractLoop parse lines ev fb
     = Inr (ev @ primaryEntries parse lines, fb @ fallbackEntries parse lines)"
proof (induction lines arbitrary: ev fb)
  case Nil
  show ?case by (simp add: primaryEntries_def fallbackEntries_def)
next
  case (Cons line rest)
  have rest: "\<forall>l \<in> set rest. \<not> lineRaises parse l" using Cons.prems by simp
  show ?case
  proof (cases "recordOf parse line")
    case None
    then have "extractLoop parse (line # rest) ev fb = extractLoop parse rest ev fb"
      by (auto simp: recordOf_def split: if_splits)
    with None Cons.IH [OF rest] show ?thesis
      by (simp add: primaryEntries_def fallbackEntries_def)
  next
    case (Some parsed)
    then have nb: "trim line \<noteq> []" and p: "parse line = Some parsed"
      by (auto simp: recordOf_def split: if_splits)
    from Cons.prems Some have
      np: "\<not> candidateRaises (primaryCandidate parsed)" and
      nf: "\<not> candidateRaises (fallbackCandidate parsed)"
      by (simp_all add: lineRaises_def)
    have "extractLoop parse (line # rest) ev fb
            = extractLoop parse rest (ev @ candidateEntries (primaryCandidate parsed))
                (fb @ candidateEntries (fallbackCandidate parsed))"
      using nb p by (simp add: eventMsgBlock_streams [OF np] responseItemBlock_streams [OF nf])
    with Some Cons.IH [OF rest] show ?thesis
      by (simp add: primaryEntries_def fallbackEntries_def)
  qed
qed

text \<open>A record that raises aborts the whole extraction, wherever it stands in the log.\<close>

lemma extractLoop_raises:
  "\<exists>line \<in> set lines. lineRaises parse line \<Longrightarrow>
   extractLoop parse lines ev fb = Inl TypeError"
proof (induction lines arbitrary: ev fb)
  case Nil
  then show ?case by simp
next
  case (Cons line rest)
  show ?case
  proof (cases "lineRaises parse line")
    case True
    then obtain parsed where nb: "trim line \<noteq> []" and p: "parse line = Some parsed"
      and r: "candidateRaises (primaryCandidate parsed) \<or> candidateRaises (fallbackCandidate parsed)"
      by (auto simp: lineRaises_def recordOf_def split: option.splits if_splits)
    show ?thesis
    proof (cases "candidateRaises (primaryCandidate parsed)")
      case True
      then show ?thesis using nb p by (simp add: eventMsgBlock_raises)
    next
      case False
      with r have "candidateRaises (fallbackCandidate parsed)" by simp
      then show ?thesis using nb p False
        by (simp add: eventMsgBlock_streams responseItemBlock_raises)
    qed
  next
    case False
    with Cons.prems have ex: "\<exists>l \<in> set rest. lineRaises parse l" by simp
    show ?thesis
    proof (cases "recordOf parse line")
      case None
      then have "extractLoop parse (line # rest) ev fb = extractLoop parse rest ev fb"
        by (auto simp: recordOf_def split: if_splits)
      then show ?thesis using Cons.IH [OF ex] by simp
    next
      case (Some parsed)
      then have nb: "trim line \<noteq> []" and p: "parse line = Some parsed"
        by (auto simp: recordOf_def split: if_splits)
      from False Some have
        np: "\<not> candidateRaises (primaryCandidate parsed)" and
        nf: "\<not> candidateRaises (fallbackCandidate parsed)"
        by (simp_all add: lineRaises_def)
      show ?thesis using nb p Cons.IH [OF ex]
        by (simp add: eventMsgBlock_streams [OF np] responseItemBlock_streams [OF nf])
    qed
  qed
qed

lemma extractConversation_raises_iff:
  "extractConversation parse lines = Inl TypeError \<longleftrightarrow> (\<exists>line \<in> set lines. lineRaises parse line)"
proof (cases "\<exists>line \<in> set lines. lineRaises parse line")
  case True
  then show ?thesis
    using extractLoop_raises [of lines parse "[]" "[]"] by (simp add: extractConversation_def)
next
  case False
  then have "\<forall>line \<in> set lines. \<not> lineRaises parse line" by simp
  from extractLoop_streams [OF this, of "[]" "[]"] False show ?thesis
    by (simp add: extractConversation_def)
qed

text \<open>
  C1, as amended. For every session log on which no record raises (a record raises when
  the message of an \<open>event_msg\<close> is a truthy value that is not a string and reaches
  \<open>shouldExcludeText\<close>, or when a text cannot be converted to a string), the fallback is
  all-or-nothing: if the primary stream is not empty \<open>extractConversation\<close> returns
  exactly the primary-stream entries in order, otherwise exactly the fallback-stream
  entries in order.
\<close>

theorem extractConversation_all_or_nothing:
  assumes "\<forall>line \<in> set lines. \<not> lineRaises parse line"
  shows "extractConversation parse lines
           = Inr (if primaryEntries parse lines \<noteq> [] then primaryEntries parse lines
                  else fallbackEntries parse lines)"
  using extractLoop_streams [OF assms, of "[]" "[]"]
  by (simp add: extractConversation_def)

theorem extractConversation_all_or_nothing_witness:
  "\<not> lineRaises parseSample fallbackLine \<and> \<not> lineRaises parseSample (lit '' '')
   \<and> \<not> lineRaises parseSample agentLine \<and> \<not> lineRaises parseSample (lit ''not json'')
   \<and> fallbackEntries parseSample [fallbackLine, lit '' '', agentLine, lit ''not json'']
       = [\<lparr>erole = User, etext = JStr (lit ''hi'')\<rparr>]
   \<and> extractConversation parseSample [fallbackLine, lit '' '', agentLine, lit ''not json'']
       = Inr [\<lparr>erole = Assistant, etext = JStr (lit ''hello'')\<rparr>]"
proof -
  let ?log = "[fallbackLine, lit '' '', agentLine, lit ''not json'']"
  have h: "\<forall>line \<in> set ?log. \<not> lineRaises parseSample line"
    by (simp add: lineRaises_def sample_lines_record sample_records)
  have p: "primaryEntries parseSample ?log = [\<lparr>erole = Assistant, etext = JStr (lit ''hello'')\<rparr>]"
    by (simp add: primaryEntries_def sample_lines_record sample_records)
  have f: "fallbackEntries parseSample ?log = [\<lparr>erole = User, etext = JStr (lit ''hi'')\<rparr>]"
    by (simp add: fallbackEntries_def sample_lines_record sample_records)
  have each: "\<not> lineRaises parseSample fallbackLine \<and> \<not> lineRaises parseSample (lit '' '')
      \<and> \<not> lineRaises parseSample agentLine \<and> \<not> lineRaises parseSample (lit ''not json'')"
    using h by simp
  show ?thesis
    using extractConversation_all_or_nothing [OF h] each p f by simp
qed

text \<open>
  C1 as stated fails. The second line of this log is an \<open>agent_message\<close> whose message
  is the number 5: no primary entry is produced and the fallback stream holds one entry,
  yet the extraction returns neither, it throws.
\<close>

theorem extractConversation_counterexample:
  "primaryEntries parseSample [fallbackLine, numericMessageLine] = []
   \<and> fallbackEntries parseSample [fallbackLine, numericMessageLine]
       = [\<lparr>erole = User, etext = JStr (lit ''hi'')\<rparr>]
   \<and> extractConversation parseSample [fallbackLine, numericMessageLine] = Inl TypeError"
proof -
  have "lineRaises parseSample numericMessageLine"
    by (simp add: lineRaises_def sample_lines_record sample_records)
  then have "extractConversation parseSample [fallbackLine, numericMessageLine] = Inl TypeError"
    by (simp add: extractConversation_raises_iff)
  then show ?thesis
    by (simp add: primaryEntries_def fallbackEntries_def sample_lines_record sample_records)
qed


section \<open>Re-wrapping wrapped rows\<close>

subsection \<open>Tabs and carriage returns\<close>

lemma chars_of_two_spaces: "chars_of (lit ''  '') = [[0x20], [0x20]]"
  by (simp add: lit_def isHighSurrogate_def)

lemma expandChars_Cons:
  "expandChars (c # cs)
     = (if c = CR then [] else if c = TAB then [[0x20], [0x20]] else [c]) @ expandChars cs"
  by (simp add: expandChars_def)

lemma expandChars_Nil: "expandChars [] = []"
  by (simp add: expandChars_def)

lemma wrapStep_expand: "foldl (wrapStep w) st cs = foldl (wrapPut w) st (expandChars cs)"
  by (induction cs arbitrary: st)
     (simp_all add: expandChars_Nil expandChars_Cons wrapStep_def chars_of_two_spaces)

lemma glyph_space: "glyph [0x20]"
  by (simp add: glyph_def CR_def TAB_def)

lemma glyph_expand:
  "\<forall>c \<in> set cs. chars_of c = [c] \<Longrightarrow> \<forall>g \<in> set (expandChars cs). glyph g"
  by (induction cs) (auto simp: expandChars_Nil expandChars_Cons glyph_def CR_def TAB_def)

lemma glyph_nonempty: "glyph c \<Longrightarrow> c \<noteq> []"
  by (auto simp: glyph_def)

lemma expandChars_id: "\<forall>d \<in> set ds. d \<noteq> CR \<and> d \<noteq> TAB \<Longrightarrow> expandChars ds = ds"
  by (induction ds) (simp_all add: expandChars_Nil expandChars_Cons)

lemma expandChars_empty: "expandChars cs = [] \<Longrightarrow> \<forall>c \<in> set cs. c = CR"
  by (induction cs) (auto simp: expandChars_Cons split: if_splits)

subsection \<open>Decoding a string again\<close>

lemma concat_chars_of: "concat (chars_of s) = s"
  by (induction s rule: chars_of.induct) simp_all

lemma chars_of_Nil_iff: "chars_of s = [] \<longleftrightarrow> s = []"
  by (cases s rule: chars_of.cases) simp_all

lemma chars_of_units: "c \<in> set (chars_of s) \<Longrightarrow> set c \<subseteq> set s"
  by (induction s rule: chars_of.induct) (auto split: if_splits)

lemma char_shape:
  assumes "chars_of c = [c]"
  shows "(\<exists>u. c = [u]) \<or> (\<exists>h l. c = [h, l] \<and> isHighSurrogate h \<and> isLowSurrogate l)"
proof (cases c rule: chars_of.cases)
  case 1
  with assms show ?thesis by simp
next
  case (2 u)
  then show ?thesis by simp
next
  case (3 u v r)
  with assms show ?thesis by (auto simp: chars_of_Nil_iff split: if_splits)
qed

lemma not_surrogate_CR_TAB:
  "\<not> isHighSurrogate 0x0D" "\<not> isLowSurrogate 0x0D"
  "\<not> isHighSurrogate 0x09" "\<not> isLowSurrogate 0x09"
  by (simp_all add: isHighSurrogate_def isLowSurrogate_def)

lemma glyph_units: "glyph c \<Longrightarrow> 0x0D \<notin> set c \<and> 0x09 \<notin> set c"
  using char_shape [of c] not_surrogate_CR_TAB
  by (auto simp: glyph_def CR_def TAB_def)

lemma glyph_redecoded:
  assumes "\<forall>c \<in> set cs. glyph c" "d \<in> set (chars_of (concat cs))"
  shows "glyph d"
proof -
  have one: "chars_of d = [d]" using assms(2) by (rule chars_of_elem)
  have sub: "set d \<subseteq> set (concat cs)" using assms(2) by (rule chars_of_units)
  have "0x0D \<notin> set (concat cs) \<and> 0x09 \<notin> set (concat cs)"
    using assms(1) glyph_units by auto
  with sub have "0x0D \<notin> set d \<and> 0x09 \<notin> set d" by auto
  then have "d \<noteq> CR \<and> d \<noteq> TAB" by (auto simp: CR_def TAB_def)
  with one show ?thesis by (simp add: glyph_def)
qed

lemma stringWidth_concat_le:
  "\<forall>c \<in> set cs. chars_of c = [c] \<Longrightarrow> stringWidth (concat cs) \<le> sum_list (map charWidth cs)"
proof (induction cs)
  case Nil
  show ?case by (simp add: stringWidth_Nil)
next
  case (Cons c cs)
  have "stringWidth (c @ concat cs) \<le> stringWidth c + stringWidth (concat cs)"
    by (rule stringWidth_append_le)
  moreover have "stringWidth c = charWidth c" using Cons.prems by (simp add: stringWidth_single)
  moreover have "stringWidth (concat cs) \<le> sum_list (map charWidth cs)"
    using Cons by simp
  ultimately show ?case by simp
qed

lemma butlast_chars_le:
  assumes "chars_of c = [c]"
  shows "sum_list (map charWidth (butlast (chars_of (s @ c)))) \<le> stringWidth s"
proof (induction s rule: chars_of.induct)
  case 1
  show ?case using assms by (simp add: stringWidth_Nil)
next
  case (2 u)
  from char_shape [OF assms] show ?case
  proof
    assume "\<exists>v. c = [v]"
    then obtain v where c: "c = [v]" by blast
    show ?thesis using c charWidth_nonneg [of "[u]"] by (simp add: stringWidth_chars)
  next
    assume "\<exists>h l. c = [h, l] \<and> isHighSurrogate h \<and> isLowSurrogate l"
    then obtain h l where c: "c = [h, l]" and h: "isHighSurrogate h" and l: "isLowSurrogate l"
      by blast
    have "\<not> isLowSurrogate h" using h low_not_high by blast
    then show ?thesis using c h l by (simp add: stringWidth_chars)
  qed
next
  case (3 u v r)
  have ne: "c \<noteq> []" using assms by auto
  show ?case
  proof (cases "isHighSurrogate u \<and> isLowSurrogate v")
    case True
    have "chars_of (r @ c) \<noteq> []" using ne by (simp add: chars_of_Nil_iff)
    then show ?thesis using True 3(1)
      by (simp add: stringWidth_chars)
  next
    case False
    have "chars_of ((v # r) @ c) \<noteq> []" by (simp add: chars_of_Nil_iff)
    then have "chars_of (v # r @ c) \<noteq> []" by simp
    then show ?thesis using False 3(2)
      by (auto simp: stringWidth_chars)
  qed
qed

lemma sum_butlast_le:
  "sum_list (map charWidth (butlast cs)) \<le> sum_list (map charWidth cs)"
proof (cases cs rule: rev_cases)
  case Nil
  then show ?thesis by simp
next
  case (snoc xs x)
  then show ?thesis using charWidth_nonneg [of x] by simp
qed

lemma fits_redecoded:
  assumes "cs \<noteq> []" "\<forall>c \<in> set cs. glyph c" "fits w cs"
  shows "fits w (chars_of (concat cs))"
proof -
  have one: "\<forall>c \<in> set cs. chars_of c = [c]" using assms(2) by (simp add: glyph_def)
  obtain xs x where cs: "cs = xs @ [x]" using assms(1) by (cases cs rule: rev_cases) auto
  have x1: "chars_of x = [x]" using one cs by simp
  have xs1: "\<forall>c \<in> set xs. chars_of c = [c]" using one cs by simp
  have "sum_list (map charWidth (butlast (chars_of (concat cs))))
          \<le> stringWidth (concat xs)"
    using butlast_chars_le [OF x1, of "concat xs"] cs by simp
  also have "\<dots> \<le> sum_list (map charWidth xs)" using xs1 by (rule stringWidth_concat_le)
  also have "\<dots> < w" using assms(3) cs by (simp add: fits_def)
  finally have a: "sum_list (map charWidth (butlast (chars_of (concat cs)))) < w" .
  have b: "sum_list (map charWidth (chars_of (concat cs))) \<le> w"
    if two: "2 \<le> length (chars_of (concat cs))"
  proof -
    have "xs \<noteq> []"
    proof
      assume "xs = []"
      then have "chars_of (concat cs) = [x]" using cs x1 by simp
      with two show False by simp
    qed
    then have "2 \<le> length cs" using cs by (cases xs) simp_all
    then have "sum_list (map charWidth cs) \<le> w" using assms(3) by (simp add: fits_def)
    moreover have "stringWidth (concat cs) \<le> sum_list (map charWidth cs)"
      using one by (rule stringWidth_concat_le)
    ultimately show ?thesis by (simp add: stringWidth_chars)
  qed
  from a b show ?thesis by (simp add: fits_def)
qed

subsection \<open>Placing the characters of a line that fits\<close>

lemma wrapPut_cases:
  "wrapPut w (lines, line, lw) c =
     (if lw + charWidth c > w \<and> line \<noteq> []
      then (if charWidth c \<ge> w then (lines @ [line, c], [], 0)
            else (lines @ [line], c, charWidth c))
      else (if lw + charWidth c \<ge> w then (lines @ [line @ c], [], 0)
            else (lines, line @ c, lw + charWidth c)))"
  by (simp add: wrapPut_def Let_def)

lemma concat_nonempty: "cs \<noteq> [] \<Longrightarrow> \<forall>c \<in> set cs. c \<noteq> [] \<Longrightarrow> concat cs \<noteq> []"
  by (cases cs) auto

lemma fits_run:
  assumes "1 \<le> w"
  shows "cs \<noteq> [] \<Longrightarrow> \<forall>c \<in> set cs. c \<noteq> [] \<Longrightarrow> fits w cs \<Longrightarrow>
     foldl (wrapPut w) ([], [], 0) cs
       = (if w \<le> sum_list (map charWidth cs) then ([concat cs], [], 0)
          else ([], concat cs, sum_list (map charWidth cs)))"
proof (induction cs rule: rev_induct)
  case Nil
  then show ?case by simp
next
  case (snoc x xs)
  show ?case
  proof (cases "xs = []")
    case True
    then show ?thesis using assms by (simp add: wrapPut_cases)
  next
    case False
    have lt: "sum_list (map charWidth xs) < w" using snoc.prems(3) by (simp add: fits_def)
    have le: "sum_list (map charWidth xs) + charWidth x \<le> w"
    proof -
      have "2 \<le> length (xs @ [x])" using False by (cases xs) simp_all
      then show ?thesis using snoc.prems(3) by (simp add: fits_def)
    qed
    have fx: "fits w xs"
      using lt sum_butlast_le [of xs] by (simp add: fits_def)
    have ne: "\<forall>c \<in> set xs. c \<noteq> []" using snoc.prems(2) by simp
    have run: "foldl (wrapPut w) ([], [], 0) xs = ([], concat xs, sum_list (map charWidth xs))"
      using snoc.IH [OF False ne fx] lt by simp
    have cne: "concat xs \<noteq> []" using False ne by (rule concat_nonempty)
    show ?thesis using run le cne by (simp add: wrapPut_cases)
  qed
qed

lemma wrapText_fixed:
  assumes "1 \<le> w" "lineGood w l"
  shows "wrapText l w = [l]"
proof -
  obtain cs where cs: "cs \<noteq> []" and l: "l = concat cs"
    and g: "\<forall>c \<in> set cs. glyph c" and f: "fits w cs"
    using assms(2) by (auto simp: lineGood_def)
  let ?ds = "chars_of l"
  have lne: "l \<noteq> []" using cs g l glyph_nonempty by (auto intro: concat_nonempty)
  have dne: "?ds \<noteq> []" using lne by (simp add: chars_of_Nil_iff)
  have dg: "\<forall>d \<in> set ?ds. glyph d" using g l glyph_redecoded by blast
  have dn: "\<forall>d \<in> set ?ds. d \<noteq> []" using dg glyph_nonempty by blast
  have df: "fits w ?ds" using fits_redecoded [OF cs g f] l by simp
  have ex: "expandChars ?ds = ?ds" using dg by (intro expandChars_id) (simp add: glyph_def)
  have "foldl (wrapStep w) ([], [], 0) ?ds
          = (if w \<le> sum_list (map charWidth ?ds) then ([concat ?ds], [], 0)
             else ([], concat ?ds, sum_list (map charWidth ?ds)))"
    using fits_run [OF assms(1) dne dn df] by (simp add: wrapStep_expand ex)
  then show ?thesis using assms(1) lne by (simp add: wrapText_def concat_chars_of)
qed

subsection \<open>The lines wrapText produces fit\<close>

lemma lineGood_current:
  assumes "cs \<noteq> []" "\<forall>c \<in> set cs. glyph c" "sum_list (map charWidth cs) < w"
  shows "lineGood w (concat cs)"
proof -
  have "fits w cs" using assms(3) sum_butlast_le [of cs] by (simp add: fits_def)
  with assms show ?thesis by (auto simp: lineGood_def)
qed

lemma lineGood_single: "1 \<le> w \<Longrightarrow> glyph c \<Longrightarrow> lineGood w c"
proof -
  assume w: "1 \<le> w" and g: "glyph c"
  have "fits w [c]" using w by (simp add: fits_def)
  moreover have "c = concat [c]" by simp
  ultimately show "lineGood w c" using g unfolding lineGood_def
    by (intro exI [of _ "[c]"]) simp
qed

lemma lineGood_snoc:
  assumes "\<forall>c \<in> set cs. glyph c" "glyph c" "sum_list (map charWidth cs) < w"
    "cs \<noteq> [] \<longrightarrow> sum_list (map charWidth cs) + charWidth c \<le> w"
  shows "lineGood w (concat cs @ c)"
proof -
  have "2 \<le> length (cs @ [c]) \<longrightarrow> cs \<noteq> []" by (cases cs) simp_all
  then have "fits w (cs @ [c])" using assms(3,4) by (auto simp: fits_def)
  moreover have "concat cs @ c = concat (cs @ [c])" by simp
  ultimately show ?thesis using assms(1,2) unfolding lineGood_def
    by (intro exI [of _ "cs @ [c]"]) auto
qed

lemma wrapPut_stable:
  assumes "1 \<le> w" "stableInv w st" "glyph c"
  shows "stableInv w (wrapPut w st c)"
proof -
  obtain lines line lw where st: "st = (lines, line, lw)" by (cases st)
  from assms(2) st obtain cs where good: "\<forall>l \<in> set lines. lineGood w l"
    and line: "line = concat cs" and g: "\<forall>c \<in> set cs. glyph c"
    and lw: "lw = sum_list (map charWidth cs)" and lt: "lw < w"
    by (auto simp: stableInv_def)
  have single: "lineGood w c" using assms(1,3) by (rule lineGood_single)
  have cur1: "\<exists>ds. c = concat ds \<and> (\<forall>d \<in> set ds. glyph d)
                 \<and> charWidth c = sum_list (map charWidth ds)"
    using assms(3) by (intro exI [of _ "[c]"]) simp
  have cur0: "\<exists>ds. ([]::jsstring) = concat ds \<and> (\<forall>d \<in> set ds. glyph d)
                 \<and> (0::int) = sum_list (map charWidth ds)"
    by (intro exI [of _ "[]"]) simp
  have cur2: "\<exists>ds. line @ c = concat ds \<and> (\<forall>d \<in> set ds. glyph d)
                 \<and> lw + charWidth c = sum_list (map charWidth ds)"
    using assms(3) g line lw by (intro exI [of _ "cs @ [c]"]) simp
  show ?thesis
  proof (cases "lw + charWidth c > w \<and> line \<noteq> []")
    case True
    then have "cs \<noteq> []" using line by auto
    then have "lineGood w line" using g lt lw line lineGood_current by blast
    then show ?thesis using True st good single cur0 cur1 assms(1)
      by (auto simp: wrapPut_cases stableInv_def)
  next
    case False
    have "cs \<noteq> [] \<longrightarrow> line \<noteq> []"
      using line g glyph_nonempty by (auto intro: concat_nonempty)
    then have "cs \<noteq> [] \<longrightarrow> sum_list (map charWidth cs) + charWidth c \<le> w"
      using False lw by auto
    then have "lineGood w (line @ c)"
      using lineGood_snoc [OF g assms(3)] lt lw line by simp
    then show ?thesis using False st good cur0 cur2 assms(1)
      by (auto simp: wrapPut_cases stableInv_def)
  qed
qed

lemma foldl_wrapPut_stable:
  "1 \<le> w \<Longrightarrow> stableInv w st \<Longrightarrow> \<forall>c \<in> set cs. glyph c
     \<Longrightarrow> stableInv w (foldl (wrapPut w) st cs)"
  by (induction cs arbitrary: st) (simp_all add: wrapPut_stable)

lemma wrapPut_progress:
  "c \<noteq> [] \<Longrightarrow> wrapPut w st c = (lines, line, lw) \<Longrightarrow> lines \<noteq> [] \<or> line \<noteq> []"
  by (cases st) (auto simp: wrapPut_cases split: if_splits)

lemma foldl_wrapPut_progress:
  assumes "cs \<noteq> []" "\<forall>c \<in> set cs. c \<noteq> []"
    "foldl (wrapPut w) st cs = (lines, line, lw)"
  shows "lines \<noteq> [] \<or> line \<noteq> []"
proof -
  obtain xs x where cs: "cs = xs @ [x]" using assms(1) by (cases cs rule: rev_cases) auto
  then have "wrapPut w (foldl (wrapPut w) st xs) x = (lines, line, lw)" using assms(3) by simp
  moreover have "x \<noteq> []" using assms(2) cs by simp
  ultimately show ?thesis using wrapPut_progress by blast
qed

lemma crOnly_iff: "crOnly t \<longleftrightarrow> t \<noteq> [] \<and> set t \<subseteq> {0x0D}"
  by (auto simp: crOnly_def list_all_iff)

lemma wrapText_stable:
  assumes "1 \<le> w" "\<not> crOnly t" "l \<in> set (wrapText t w)"
  shows "wrapText l w = [l]"
proof (cases "t = []")
  case True
  then have "l = lit '' ''" using assms(1,3) by (simp add: wrapText_def)
  moreover have "lineGood w [0x20]" using assms(1) glyph_space by (rule lineGood_single)
  ultimately have "lineGood w l" by (simp add: lit_def)
  with assms(1) show ?thesis by (rule wrapText_fixed)
next
  case False
  let ?gs = "expandChars (chars_of t)"
  obtain lines line lw where run: "foldl (wrapPut w) ([], [], 0) ?gs = (lines, line, lw)"
    by (cases "foldl (wrapPut w) ([], [], 0) ?gs")
  have gl: "\<forall>g \<in> set ?gs. glyph g"
    by (rule glyph_expand) (simp add: chars_of_elem)
  have init: "stableInv w ([], [], 0)"
    using assms(1) unfolding stableInv_def by (auto intro: exI [of _ "[]"])
  have "stableInv w (lines, line, lw)"
    using foldl_wrapPut_stable [OF assms(1) init gl] run by simp
  then obtain cs where good: "\<forall>l \<in> set lines. lineGood w l"
    and line: "line = concat cs" and g: "\<forall>c \<in> set cs. glyph c"
    and lw: "lw = sum_list (map charWidth cs)" and lt: "lw < w"
    by (auto simp: stableInv_def)
  have gne: "?gs \<noteq> []"
  proof
    assume "?gs = []"
    then have "\<forall>c \<in> set (chars_of t). c = CR" by (rule expandChars_empty)
    then have "set (concat (chars_of t)) \<subseteq> {0x0D}" by (auto simp: CR_def)
    then have "crOnly t" using False by (simp add: concat_chars_of crOnly_iff)
    with assms(2) show False by simp
  qed
  have prog: "lines \<noteq> [] \<or> line \<noteq> []"
    using foldl_wrapPut_progress [OF gne _ run] gl glyph_nonempty by blast
  have mem: "l \<in> set lines \<or> (l = line \<and> line \<noteq> [])"
    using assms(1,3) False run prog
    by (auto simp: wrapText_def wrapStep_expand split: if_splits)
  have "lineGood w l"
  proof (cases "l \<in> set lines")
    case True
    with good show ?thesis by simp
  next
    case False
    with mem have l: "l = line" and ne: "line \<noteq> []" by simp_all
    then have "cs \<noteq> []" using line by auto
    then show ?thesis using g lt lw line l lineGood_current by blast
  qed
  with assms(1) show ?thesis by (rule wrapText_fixed)
qed

subsection \<open>Rows\<close>

lemma wrapText_nonempty: "wrapText t w \<noteq> []"
  by (auto simp: wrapText_def split: prod.splits)

lemma wrapRowLines_texts:
  "r' \<in> set (wrapRowLines r i ls) \<Longrightarrow> rtext r' \<in> set ls"
  by (induction ls arbitrary: i) (auto simp: Let_def)

lemma wrapRows_texts:
  "r' \<in> set (wrapRows rows w) \<Longrightarrow> \<exists>r \<in> set rows. rtext r' \<in> set (wrapText (rtext r) w)"
  by (induction rows) (auto simp: Let_def wrapText_nonempty dest: wrapRowLines_texts)

lemma wrapRows_fixed:
  "\<forall>r \<in> set rows. wrapText (rtext r) w = [rtext r] \<Longrightarrow> wrapRows rows w = rows"
  by (induction rows) (simp_all add: Let_def)

text \<open>
  Apart from rows whose text is made of carriage returns only, the wrap pass is
  idempotent at every width \<open>w \<ge> 1\<close>: each line it produces wraps to itself.
\<close>

theorem wrapRows_idempotent:
  assumes "1 \<le> w" "\<forall>r \<in> set rows. \<not> crOnly (rtext r)"
  shows "wrapRows (wrapRows rows w) w = wrapRows rows w"
proof (rule wrapRows_fixed, rule ballI)
  fix r'
  assume "r' \<in> set (wrapRows rows w)"
  then obtain r where r: "r \<in> set rows" and m: "rtext r' \<in> set (wrapText (rtext r) w)"
    using wrapRows_texts by blast
  from assms(2) r have "\<not> crOnly (rtext r)" by simp
  with assms(1) show "wrapText (rtext r') w = [rtext r']" using m by (rule wrapText_stable)
qed


text \<open>
  C7. Row re-wrapping is claimed idempotent for every row list and width \<open>w \<ge> 1\<close>.
  The code breaks it on a row whose text is one carriage return: the first pass drops
  the carriage return and pushes the empty line, and the second pass turns the empty text
  into the one-space placeholder.
\<close>

theorem wrapRows_cr_only:
  "wrapRows [crRow] 1 = [crRow\<lparr>rtext := []\<rparr>]
   \<and> wrapRows (wrapRows [crRow] 1) 1 = [crRow\<lparr>rtext := lit '' ''\<rparr>]
   \<and> wrapRows (wrapRows [crRow] 1) 1 \<noteq> wrapRows [crRow] 1"
proof -
  have a: "wrapText CR 1 = [[]]"
    by (simp add: wrapText_def wrapStep_def CR_def)
  have b: "wrapText [] 1 = [lit '' '']"
    by (simp add: wrapText_def)
  have c: "wrapRows [crRow] 1 = [crRow\<lparr>rtext := []\<rparr>]"
    using a by (simp add: crRow_def)
  have d: "wrapRows (wrapRows [crRow] 1) 1 = [crRow\<lparr>rtext := lit '' ''\<rparr>]"
    unfolding c using b by (simp add: crRow_def)
  have "lit '' '' \<noteq> ([]::jsstring)" by (simp add: lit_def)
  then have "crRow\<lparr>rtext := lit '' ''\<rparr> \<noteq> crRow\<lparr>rtext := []\<rparr>"
    by (simp add: crRow_def)
  with c d show ?thesis by simp
qed

section \<open>Sort key and session order\<close>

lemma deriveSortKey_chain:
  "deriveSortKey st metaTs filenameTs =
     (let m = (case st of StatOk (Some m) \<Rightarrow> m | _ \<Rightarrow> 0);
          t = (case metaTs of Some t \<Rightarrow> t | None \<Rightarrow> 0);
          f = (case filenameTs of Some f \<Rightarrow> f | None \<Rightarrow> 0)
      in if m \<noteq> 0 then m else if t \<noteq> 0 then t else f)"
  by (simp add: deriveSortKey_def numOr_def Let_def split: option.splits statResult.splits)

text \<open>
  C3. The sort key is claimed to be the modification time whenever it is available. The
  code takes a modification time of 0 (a file dated at the epoch) for an unavailable one
  and falls back to the metadata timestamp.
\<close>

theorem deriveSortKey_zero_mtime:
  "deriveSortKey (StatOk (Some 0)) (Some 1704164645000) None = 1704164645000"
  by (simp add: deriveSortKey_def numOr_def)

text \<open>
  The order of the sorted sessions: with a \<open>localeCompare\<close> that is total and
  transitive, the result is a rearrangement of the sessions in which every session may
  stand before each later one.
\<close>

lemma compareSessions_le:
  "compareSessions lc a b \<le> 0 \<longleftrightarrow> sessionBefore lc a b"
  by (auto simp: compareSessions_def sessionBefore_def)

lemma set_insertSorted: "set (insertSorted cmp x ys) = insert x (set ys)"
  by (induction ys) auto

lemma mset_insertSorted: "mset (insertSorted cmp x ys) = add_mset x (mset ys)"
  by (induction ys) simp_all

lemma sorted_insertSorted:
  assumes total: "\<And>a b. cmp a b \<le> 0 \<or> cmp b a \<le> 0"
    and trans: "\<And>a b c. cmp a b \<le> 0 \<Longrightarrow> cmp b c \<le> 0 \<Longrightarrow> cmp a c \<le> 0"
  shows "sorted_wrt (\<lambda>a b. cmp a b \<le> 0) ys
           \<Longrightarrow> sorted_wrt (\<lambda>a b. cmp a b \<le> 0) (insertSorted cmp x ys)"
proof (induction ys)
  case Nil
  show ?case by simp
next
  case (Cons y ys)
  show ?case
  proof (cases "cmp x y \<le> 0")
    case True
    then have "\<forall>z \<in> set ys. cmp x z \<le> 0" using Cons.prems trans by auto
    with True Cons.prems show ?thesis by simp
  next
    case False
    then have "cmp y x \<le> 0" using total by blast
    with False Cons show ?thesis by (auto simp: set_insertSorted)
  qed
qed

lemma arraySort_sorted:
  assumes total: "\<And>a b. cmp a b \<le> 0 \<or> cmp b a \<le> 0"
    and trans: "\<And>a b c. cmp a b \<le> 0 \<Longrightarrow> cmp b c \<le> 0 \<Longrightarrow> cmp a c \<le> 0"
  shows "sorted_wrt (\<lambda>a b. cmp a b \<le> 0) (arraySort cmp xs)"
  unfolding arraySort_def
  by (induction xs) (simp_all add: sorted_insertSorted [OF total trans])

lemma mset_arraySort: "mset (arraySort cmp xs) = mset xs"
  unfolding arraySort_def by (induction xs) (simp_all add: mset_insertSorted)

lemma sessions_sorted:
  assumes total: "\<And>x y. lc x y \<le> 0 \<or> lc y x \<le> 0"
    and trans: "\<And>x y z. lc x y \<le> 0 \<Longrightarrow> lc y z \<le> 0 \<Longrightarrow> lc x z \<le> 0"
  shows "sorted_wrt (sessionBefore lc) (arraySort (compareSessions lc) xs)
       \<and> mset (arraySort (compareSessions lc) xs) = mset xs"
proof -
  have t: "compareSessions lc a b \<le> 0 \<or> compareSessions lc b a \<le> 0" for a b
    using total [of "label a" "label b"] by (auto simp: compareSessions_le sessionBefore_def)
  have tr: "compareSessions lc a c \<le> 0"
    if "compareSessions lc a b \<le> 0" "compareSessions lc b c \<le> 0" for a b c
    using that trans [of "label a" "label b" "label c"]
    by (auto simp: compareSessions_le sessionBefore_def)
  have "sorted_wrt (\<lambda>a b. compareSessions lc a b \<le> 0) (arraySort (compareSessions lc) xs)"
    by (rule arraySort_sorted [OF t tr])
  then show ?thesis by (simp add: compareSessions_le mset_arraySort)
qed

section \<open>Session scan\<close>

text \<open>
  A tree without session files gives the state of the empty root, whatever makes it so;
  the error message is published only when building a descriptor throws.
\<close>

lemma loadSessions_no_files:
  assumes "findJsonlFiles pathJoin rootDir rootNode = []"
  shows "loadSessions pathJoin localeCompare describe rootDir rootNode
           = \<lparr>sessions = [], loadingSessions = False, sessionsError = []\<rparr>"
  using assms by (simp add: loadSessions_def scanBody_def arraySort_def)

lemma loadSessions_error_iff:
  "sessionsError (loadSessions pathJoin localeCompare describe rootDir rootNode) \<noteq> []
     \<longleftrightarrow> (\<exists>e. sequence (map describe (findJsonlFiles pathJoin rootDir rootNode)) = Inl e)"
  by (auto simp: loadSessions_def scanBody_def errorMessage_def lit_def Let_def split: sum.splits)

text \<open>
  C4, as amended. A failure to read the root scan directory is not surfaced as an error:
  \<open>findJsonlFiles\<close> catches it and yields no file, so the scan of an unreadable root
  publishes the same state as the scan of a readable root without session files, and the
  list shows "No sessions found" for both.
\<close>

theorem unreadable_root_shows_no_sessions:
  "loadSessions pathJoin localeCompare describe rootDir (Directory None)
     = loadSessions pathJoin localeCompare describe rootDir (Directory (Some []))
   \<and> ListView (loadSessions pathJoin localeCompare describe rootDir (Directory None))
       selectedIndex scrollOffset visibleCount maxLabelWidth = NoSessionsFound
   \<and> ListView (loadSessions pathJoin localeCompare describe rootDir (Directory (Some [])))
       selectedIndex scrollOffset visibleCount maxLabelWidth = NoSessionsFound"
  by (simp add: ListView_def loadSessions_def scanBody_def arraySort_def)

text \<open>
  C4 as stated fails. The scan of the unreadable root \<open>/s\<close> and the scan of the empty
  root \<open>/s\<close> render the same notice, and it is not the load error.
\<close>

theorem unreadable_root_counterexample:
  "ListView (loadSessions sampleJoin (\<lambda>a b. 0) sampleDescribe (lit ''/s'') (Directory None))
       0 0 15 21
     = ListView (loadSessions sampleJoin (\<lambda>a b. 0) sampleDescribe (lit ''/s'') (Directory (Some [])))
       0 0 15 21
   \<and> ListView (loadSessions sampleJoin (\<lambda>a b. 0) sampleDescribe (lit ''/s'') (Directory None))
       0 0 15 21 = NoSessionsFound"
  by (simp add: ListView_def loadSessions_def scanBody_def arraySort_def)

section \<open>Default export path\<close>

text \<open>
  C10, as amended. \<open>defaultExportPath\<close> throws a TypeError on a \<open>null\<close> session. For a
  session with an id (a truthy value) whose \<open>String\<close> conversion succeeds it returns the
  working directory joined with the converted id and \<open>.md\<close>, for a string id the id
  itself; for an id whose conversion throws it throws. For a session without an id it
  takes the base name of the path without \<open>.jsonl\<close>, or of \<open>session\<close> when the path is
  absent or empty.
\<close>

theorem defaultExportPath_cases:
  "defaultExportPath pathJoin basename cwd None = Inl TypeError
   \<and> (truthy (Some (sid s)) \<and> toStr (sid s) = Inr i \<longrightarrow>
        defaultExportPath pathJoin basename cwd (Some s) = Inr (pathJoin cwd (i @ lit ''.md'')))
   \<and> (sid s = JStr i \<and> i \<noteq> [] \<longrightarrow>
        defaultExportPath pathJoin basename cwd (Some s) = Inr (pathJoin cwd (i @ lit ''.md'')))
   \<and> (truthy (Some (sid s)) \<and> toStr (sid s) = Inl e \<longrightarrow>
        defaultExportPath pathJoin basename cwd (Some s) = Inl e)
   \<and> (\<not> truthy (Some (sid s)) \<longrightarrow>
        defaultExportPath pathJoin basename cwd (Some s)
          = Inr (pathJoin cwd
                   (basename (case path s of Some p \<Rightarrow> (if p \<noteq> [] then p else lit ''session'')
                                            | None \<Rightarrow> lit ''session'')
                      (lit ''.jsonl'') @ lit ''.md'')))"
  by (auto simp: defaultExportPath_def strOr_def split: option.splits)

theorem defaultExportPath_cases_witness:
  "defaultExportPath sampleJoin sampleBasename (lit ''/w'') (Some idSession)
     = Inr (lit ''/w/abc.md'')
   \<and> defaultExportPath sampleJoin sampleBasename (lit ''/w'') (Some pathSession)
     = Inr (lit ''/w/a.md'')
   \<and> defaultExportPath sampleJoin sampleBasename (lit ''/w'') (Some bareSession)
     = Inr (lit ''/w/session.md'')
   \<and> defaultExportPath sampleJoin sampleBasename (lit ''/w'') (Some objectIdSession)
     = Inl TypeError
   \<and> defaultExportPath sampleJoin sampleBasename (lit ''/w'') None = Inl TypeError"
proof -
  have j: "sampleJoin (lit ''/w'') (lit ''abc'' @ lit ''.md'') = lit ''/w/abc.md''"
    by (simp add: sampleJoin_def lit_def)
  have b1: "sampleBasename (lit ''/r/a.jsonl'') (lit ''.jsonl'') = lit ''a''"
    by (simp add: sampleBasename_def endsWith_def lit_def)
  have b2: "sampleBasename (lit ''session'') (lit ''.jsonl'') = lit ''session''"
    by (simp add: sampleBasename_def endsWith_def lit_def)
  have j1: "sampleJoin (lit ''/w'') (lit ''a'' @ lit ''.md'') = lit ''/w/a.md''"
    by (simp add: sampleJoin_def lit_def)
  have j2: "sampleJoin (lit ''/w'') (lit ''session'' @ lit ''.md'') = lit ''/w/session.md''"
    by (simp add: sampleJoin_def lit_def)
  have n: "lit ''abc'' \<noteq> []" "lit ''/r/a.jsonl'' \<noteq> []" by (simp_all add: lit_def)
  have a: "truthy (Some (sid idSession)) \<and> toStr (sid idSession) = Inr (lit ''abc'')"
    using n by (simp add: idSession_def)
  have o: "truthy (Some (sid objectIdSession)) \<and> toStr (sid objectIdSession) = Inl TypeError"
    by (simp add: objectIdSession_def)
  have p: "\<not> truthy (Some (sid pathSession))" "path pathSession = Some (lit ''/r/a.jsonl'')"
    "\<not> truthy (Some (sid bareSession))" "path bareSession = None"
    by (simp_all add: pathSession_def bareSession_def)
  show ?thesis
    using defaultExportPath_cases [where pathJoin = sampleJoin and basename = sampleBasename
        and cwd = "lit ''/w''" and s = idSession and i = "lit ''abc''"]
      defaultExportPath_cases [where pathJoin = sampleJoin and basename = sampleBasename
        and cwd = "lit ''/w''" and s = pathSession]
      defaultExportPath_cases [where pathJoin = sampleJoin and basename = sampleBasename
        and cwd = "lit ''/w''" and s = bareSession]
      defaultExportPath_cases [where pathJoin = sampleJoin and basename = sampleBasename
        and cwd = "lit ''/w''" and s = objectIdSession and e = TypeError]
      j b1 b2 j1 j2 n a o p
    by simp
qed

text \<open>
  C10 as stated fails. The session whose id is an object with a \<open>toString\<close> member has
  an id, and \<open>defaultExportPath\<close> throws on it instead of returning a path.
\<close>

theorem defaultExportPath_counterexample:
  "truthy (Some (sid objectIdSession))
   \<and> defaultExportPath sampleJoin sampleBasename (lit ''/w'') (Some objectIdSession)
       = Inl TypeError"
  by (simp add: objectIdSession_def defaultExportPath_def)

section \<open>Scroll offset of the conversation pane\<close>

lemma maxRightOffset_nonneg: "0 \<le> maxRightOffset r"
  by (simp add: maxRightOffset_def)

lemma rightVisibleCount_pos: "1 \<le> rightVisibleCount r"
  by (simp add: rightVisibleCount_def)

lemma ceilHalf_nonneg: "1 \<le> n \<Longrightarrow> 0 \<le> ceilHalf n"
  by (simp add: ceilHalf_def)

lemma handleKey_inv:
  assumes "0 \<le> prev" "prev \<le> maxRightOffset r"
  shows "0 \<le> handleKey r k prev \<and> handleKey r k prev \<le> maxRightOffset r"
  using assms maxRightOffset_nonneg [of r] rightVisibleCount_pos [of r]
    ceilHalf_nonneg [OF rightVisibleCount_pos [of r]]
  by (cases k) auto

lemma runEffects_inv:
  assumes "0 \<le> prev" "prev \<le> maxRightOffset old"
  shows "0 \<le> runEffects old new prev \<and> runEffects old new prev \<le> maxRightOffset new"
  using assms maxRightOffset_nonneg [of new]
  by (auto simp: runEffects_def Let_def)

lemma paneInit_inv: "paneInv (paneInit r)"
  by (simp add: paneInv_def paneInit_def maxRightOffset_nonneg)

lemma paneStep_inv:
  assumes "paneInv s"
  shows "paneInv (paneStep s ev)"
proof (cases ev)
  case (Key k)
  then show ?thesis using assms handleKey_inv [of "rightScrollOffset s" "inputs s" k]
    by (simp add: paneInv_def)
next
  case (Rerender new)
  then show ?thesis using assms runEffects_inv [of "rightScrollOffset s" "inputs s" new]
    by (simp add: paneInv_def)
next
  case (ConversationLoaded n)
  then show ?thesis
    using runEffects_inv [of 0 "inputs s" "(inputs s)\<lparr>rightTotalCount := n\<rparr>"]
      maxRightOffset_nonneg [of "inputs s"]
    by (simp add: paneInv_def Let_def)
qed

text \<open>
  C5, as amended. After every transition from a state within bounds the offset satisfies
  \<open>0 \<le> offset \<le> max(0, totalRows - visibleCount)\<close>. A render that changes none of
  the selected session, the render mode, the content width and the header height
  re-clamps the offset against the new maximum without resetting it; a render that
  changes one of these four resets it to 0, and so does the arrival of the conversation
  extracted for a newly selected session.
\<close>

theorem scroll_offset_clamped:
  assumes "0 \<le> rightScrollOffset s" "rightScrollOffset s \<le> maxRightOffset (inputs s)"
  shows "0 \<le> rightScrollOffset (paneStep s ev)
       \<and> rightScrollOffset (paneStep s ev) \<le> maxRightOffset (inputs (paneStep s ev))
       \<and> (selectedSession new = selectedSession (inputs s) \<and> viewMode new = viewMode (inputs s)
            \<and> rightContentWidth new = rightContentWidth (inputs s)
            \<and> rightHeaderHeight new = rightHeaderHeight (inputs s)
          \<longrightarrow> rightScrollOffset (paneStep s (Rerender new))
                = min (rightScrollOffset s) (maxRightOffset new))
       \<and> (selectedSession new \<noteq> selectedSession (inputs s) \<or> viewMode new \<noteq> viewMode (inputs s)
            \<or> rightContentWidth new \<noteq> rightContentWidth (inputs s)
            \<or> rightHeaderHeight new \<noteq> rightHeaderHeight (inputs s)
          \<longrightarrow> rightScrollOffset (paneStep s (Rerender new)) = 0)
       \<and> rightScrollOffset (paneStep s (ConversationLoaded n)) = 0"
proof -
  have inv: "paneInv s" using assms by (simp add: paneInv_def)
  have a: "0 \<le> rightScrollOffset (paneStep s ev)
       \<and> rightScrollOffset (paneStep s ev) \<le> maxRightOffset (inputs (paneStep s ev))"
    using paneStep_inv [OF inv, of ev] by (simp add: paneInv_def)
  have b: "rightScrollOffset (paneStep s (Rerender new))
             = min (rightScrollOffset s) (maxRightOffset new)"
    if "selectedSession new = selectedSession (inputs s) \<and> viewMode new = viewMode (inputs s)
            \<and> rightContentWidth new = rightContentWidth (inputs s)
            \<and> rightHeaderHeight new = rightHeaderHeight (inputs s)"
    using that assms by (auto simp: runEffects_def Let_def)
  have c: "rightScrollOffset (paneStep s (Rerender new)) = 0"
    if "selectedSession new \<noteq> selectedSession (inputs s) \<or> viewMode new \<noteq> viewMode (inputs s)
            \<or> rightContentWidth new \<noteq> rightContentWidth (inputs s)
            \<or> rightHeaderHeight new \<noteq> rightHeaderHeight (inputs s)"
    using that by (auto simp: runEffects_def Let_def)
  have d: "rightScrollOffset (paneStep s (ConversationLoaded n)) = 0"
    using maxRightOffset_nonneg [of "(inputs s)\<lparr>rightTotalCount := n\<rparr>"]
    by (simp add: runEffects_def Let_def)
  from a b c d show ?thesis by blast
qed

lemma sample_max: "maxRightOffset sampleInputs = 6"
  by (simp add: sampleInputs_def maxRightOffset_def rightVisibleCount_def baseVisibleCount_def
      paneHeight_def rightHeaderHeight_def)

lemma sample_max_8: "maxRightOffset (sampleInputs\<lparr>rightTotalCount := 8\<rparr>) = 4"
  by (simp add: sampleInputs_def maxRightOffset_def rightVisibleCount_def baseVisibleCount_def
      paneHeight_def rightHeaderHeight_def)

lemma sample_max_12:
  "maxRightOffset (sampleInputs\<lparr>rightContentWidth := 80, rightTotalCount := 12\<rparr>) = 8"
  by (simp add: sampleInputs_def maxRightOffset_def rightVisibleCount_def baseVisibleCount_def
      paneHeight_def rightHeaderHeight_def)

theorem scroll_offset_clamped_witness:
  "0 \<le> rightScrollOffset samplePane
   \<and> rightScrollOffset samplePane \<le> maxRightOffset (inputs samplePane)
   \<and> maxRightOffset (inputs samplePane) = 6
   \<and> rightScrollOffset (paneStep samplePane (Key LineDown)) = 6
   \<and> rightScrollOffset (paneStep samplePane (Key PageBack)) = 2
   \<and> rightScrollOffset (paneStep samplePane (Rerender (sampleInputs\<lparr>rightTotalCount := 8\<rparr>))) = 4
   \<and> rightScrollOffset (paneStep samplePane (Rerender (sampleInputs\<lparr>viewMode := Markdown\<rparr>))) = 0"
proof -
  have h1: "0 \<le> rightScrollOffset samplePane" by (simp add: samplePane_def)
  have h2: "rightScrollOffset samplePane \<le> maxRightOffset (inputs samplePane)"
    by (simp add: samplePane_def sample_max)
  have k1: "rightScrollOffset (paneStep samplePane (Key LineDown)) = 6"
    by (simp add: samplePane_def sample_max)
  have k2: "rightScrollOffset (paneStep samplePane (Key PageBack)) = 2"
    by (simp add: samplePane_def sampleInputs_def rightVisibleCount_def baseVisibleCount_def
        paneHeight_def rightHeaderHeight_def)
  have same: "selectedSession (sampleInputs\<lparr>rightTotalCount := 8\<rparr>) = selectedSession (inputs samplePane)
      \<and> viewMode (sampleInputs\<lparr>rightTotalCount := 8\<rparr>) = viewMode (inputs samplePane)
      \<and> rightContentWidth (sampleInputs\<lparr>rightTotalCount := 8\<rparr>) = rightContentWidth (inputs samplePane)
      \<and> rightHeaderHeight (sampleInputs\<lparr>rightTotalCount := 8\<rparr>) = rightHeaderHeight (inputs samplePane)"
    by (simp add: samplePane_def rightHeaderHeight_def)
  have diff: "viewMode (sampleInputs\<lparr>viewMode := Markdown\<rparr>) \<noteq> viewMode (inputs samplePane)"
    by (simp add: samplePane_def sampleInputs_def)
  have six: "rightScrollOffset samplePane = 6" by (simp add: samplePane_def)
  show ?thesis
    using scroll_offset_clamped [OF h1 h2, of "Key LineDown" "sampleInputs\<lparr>rightTotalCount := 8\<rparr>"]
      scroll_offset_clamped [OF h1 h2, of "Key PageBack" "sampleInputs\<lparr>viewMode := Markdown\<rparr>"]
      h1 h2 k1 k2 same diff six sample_max sample_max_8
    by (simp add: samplePane_def)
qed

text \<open>
  C5 as stated fails. A change of the content width re-wraps the rows; the session and the
  render mode are the same, the row count changes, a re-clamp would keep the offset 6, and
  the code resets it to 0.
\<close>

theorem scroll_offset_counterexample:
  "selectedSession (sampleInputs\<lparr>rightContentWidth := 80, rightTotalCount := 12\<rparr>)
     = selectedSession (inputs samplePane)
   \<and> viewMode (sampleInputs\<lparr>rightContentWidth := 80, rightTotalCount := 12\<rparr>)
     = viewMode (inputs samplePane)
   \<and> rightTotalCount (sampleInputs\<lparr>rightContentWidth := 80, rightTotalCount := 12\<rparr>)
     \<noteq> rightTotalCount (inputs samplePane)
   \<and> min (rightScrollOffset samplePane)
         (maxRightOffset (sampleInputs\<lparr>rightContentWidth := 80, rightTotalCount := 12\<rparr>)) = 6
   \<and> rightScrollOffset
         (paneStep samplePane
            (Rerender (sampleInputs\<lparr>rightContentWidth := 80, rightTotalCount := 12\<rparr>))) = 0"
proof -
  have "rightContentWidth (sampleInputs\<lparr>rightContentWidth := 80, rightTotalCount := 12\<rparr>)
          \<noteq> rightContentWidth (inputs samplePane)"
    by (simp add: samplePane_def sampleInputs_def)
  then have "rightScrollOffset
         (paneStep samplePane
            (Rerender (sampleInputs\<lparr>rightContentWidth := 80, rightTotalCount := 12\<rparr>))) = 0"
    by (simp add: runEffects_def Let_def)
  then show ?thesis
    by (simp add: sample_max_12) (simp add: samplePane_def sampleInputs_def)
qed


end
